theory Spec2Isabelle
  imports Complex_Main "HOL-Library.Word"
begin

section \<open>Numeric model\<close>

text \<open>
  The header \<^verbatim>\<open>DISANAMMUtils.h\<close> computes with \<^verbatim>\<open>float\<close> and \<^verbatim>\<open>double\<close>.
  The four-vector sums, the magnitude, the azimuthal angle, the invariant mass and the
  aliases are modelled in exact arithmetic: both types are \<^typ>\<open>real\<close>, the casts
  between the two widths are the identity, and \<^verbatim>\<open>M_PI\<close> is \<^term>\<open>pi\<close>. Rounding,
  overflow, underflow and signed zeros are outside that part of the model; the one
  floating-point effect it keeps is \<open>NaN\<close> as the square root of a negative number.

  The polar angle \<open>ThetaFunc\<close> is modelled in IEEE 754 binary32, the arithmetic of its
  source line: whether its divisor is zero and whether its quotient lies in the domain of
  the arc cosine is decided by rounding, underflow and overflow.
\<close>

datatype fpval = Finite real | NaN

text \<open>
  \<^verbatim>\<open>std::atan2(y, x)\<close> of the C++ standard library, by quadrant. At the origin the
  library returns \<open>0\<close> for positive zeros (reals have no negative zero).
\<close>

definition std_atan2 :: "real \<Rightarrow> real \<Rightarrow> real" where
  "std_atan2 y x =
     (if 0 < x then arctan (y / x)
      else if x < 0 \<and> 0 \<le> y then arctan (y / x) + pi
      else if x < 0 \<and> y < 0 then arctan (y / x) - pi
      else if 0 < y then pi / 2
      else if y < 0 then - (pi / 2)
      else 0)"

section \<open>Binary32 arithmetic\<close>

text \<open>
  A finite binary32 number is modelled by its real value: a multiple of \<open>2\<^sup>e\<^sup>-\<^sup>2\<^sup>3\<close> below
  \<open>2\<^sup>e\<^sup>+\<^sup>1\<close> in magnitude with \<open>-126 \<le> e \<le> 127\<close> (24 bits of precision; the numbers
  below \<open>2\<^sup>-\<^sup>1\<^sup>2\<^sup>6\<close> are the subnormal multiples of \<open>2\<^sup>-\<^sup>1\<^sup>4\<^sup>9\<close>). \<open>round_even\<close> rounds a real
  to the nearest integer, ties to the even one; \<open>fl32\<close> rounds a real to the nearest
  number of that grid, the exponent taken from the real itself and unbounded above, which
  is the rounding of IEEE 754 before its overflow test.
\<close>

definition round_even :: "real \<Rightarrow> int" where
  "round_even w =
     (let n = \<lfloor>w\<rfloor>; r = w - of_int n
      in if r < 1 / 2 then n else if 1 / 2 < r then n + 1 else if even n then n else n + 1)"

definition f32_exponent :: "real \<Rightarrow> int" where
  "f32_exponent x = max \<lfloor>log 2 \<bar>x\<bar>\<rfloor> (- 126)"

definition f32_ulp :: "real \<Rightarrow> real" where
  "f32_ulp x = 2 powr of_int (f32_exponent x - 23)"

definition fl32 :: "real \<Rightarrow> real" where
  "fl32 x = (if x = 0 then 0 else of_int (round_even (x / f32_ulp x)) * f32_ulp x)"

definition is_f32 :: "real \<Rightarrow> bool" where
  "is_f32 x \<longleftrightarrow> fl32 x = x \<and> \<bar>x\<bar> < 2 ^ 128"

text \<open>
  A binary32 value is a finite number, an infinity or \<open>NaN\<close>. The two zeros are not
  told apart: the only zero that matters below is a divisor that is the root of a sum of
  squares, which is \<open>+0\<close>. \<open>f32_round\<close> is rounding with the overflow test: a result of
  magnitude \<open>2\<^sup>1\<^sup>2\<^sup>8\<close> or more is an infinity.
\<close>

datatype f32 = F32 real | PInf32 | NInf32 | NaN32

definition f32_round :: "real \<Rightarrow> f32" where
  "f32_round x =
     (if 2 ^ 128 \<le> fl32 x then PInf32
      else if fl32 x \<le> - (2 ^ 128) then NInf32
      else F32 (fl32 x))"

text \<open>
  The operations of the polar angle, with the special cases of IEEE 754. The product is
  taken of two finite numbers and the quotient has a finite numerator, as in the source,
  where the operands are finite columns. \<^verbatim>\<open>std::acos\<close> has a domain error (\<open>NaN\<close>) outside
  \<open>[-1, 1]\<close>; its \<^verbatim>\<open>float\<close> result is taken to be the correctly rounded one.
\<close>

definition f32_mul :: "real \<Rightarrow> real \<Rightarrow> f32" where
  "f32_mul a b = f32_round (a * b)"

fun f32_add :: "f32 \<Rightarrow> f32 \<Rightarrow> f32" where
  "f32_add NaN32 b = NaN32"
| "f32_add a NaN32 = NaN32"
| "f32_add PInf32 NInf32 = NaN32"
| "f32_add NInf32 PInf32 = NaN32"
| "f32_add PInf32 b = PInf32"
| "f32_add NInf32 b = NInf32"
| "f32_add a PInf32 = PInf32"
| "f32_add a NInf32 = NInf32"
| "f32_add (F32 a) (F32 b) = f32_round (a + b)"

fun f32_sqrt :: "f32 \<Rightarrow> f32" where
  "f32_sqrt NaN32 = NaN32"
| "f32_sqrt PInf32 = PInf32"
| "f32_sqrt NInf32 = NaN32"
| "f32_sqrt (F32 a) = (if a < 0 then NaN32 else f32_round (sqrt a))"

fun f32_div :: "real \<Rightarrow> f32 \<Rightarrow> f32" where
  "f32_div a NaN32 = NaN32"
| "f32_div a PInf32 = F32 0"
| "f32_div a NInf32 = F32 0"
| "f32_div a (F32 b) =
     (if b = 0 then (if a = 0 then NaN32 else if 0 < a then PInf32 else NInf32)
      else f32_round (a / b))"

fun f32_acos :: "f32 \<Rightarrow> fpval" where
  "f32_acos (F32 q) = (if - 1 \<le> q \<and> q \<le> 1 then Finite (fl32 (arccos q)) else NaN)"
| "f32_acos v = NaN"

text \<open>
  A lower bound on a binary32 value: it is \<open>+\<infinity>\<close> or a number that is at least \<open>c\<close>.
\<close>

definition f32_ge :: "f32 \<Rightarrow> real \<Rightarrow> bool" where
  "f32_ge v c = (case v of F32 a \<Rightarrow> c \<le> a | PInf32 \<Rightarrow> True | NInf32 \<Rightarrow> False | NaN32 \<Rightarrow> False)"

section \<open>Constants and three-vector helpers (lines 9--20)\<close>

definition kMe :: real where "kMe = 0.000511"
definition kMp :: real where "kMp = 0.938272"
definition kMK :: real where "kMK = 0.493677"

definition MomentumFunc :: "real \<Rightarrow> real \<Rightarrow> real \<Rightarrow> real" where
  "MomentumFunc px py pz = sqrt (px * px + py * py + pz * pz)"

text \<open>
  \<^verbatim>\<open>std::acos(pz / std::sqrt(px * px + py * py + pz * pz))\<close> with \<^verbatim>\<open>float\<close> operands:
  the products, the two sums from left to right, the root, the quotient and the arc
  cosine are all binary32 operations, and the \<^verbatim>\<open>float\<close> result is widened to the
  returned \<^verbatim>\<open>double\<close> without change. The arguments are the \<^verbatim>\<open>float\<close> values of the
  columns. The divisor and the argument of the arc cosine are named on their own.
\<close>

definition ThetaFunc_divisor :: "real \<Rightarrow> real \<Rightarrow> real \<Rightarrow> f32" where
  "ThetaFunc_divisor px py pz =
     f32_sqrt (f32_add (f32_add (f32_mul px px) (f32_mul py py)) (f32_mul pz pz))"

definition ThetaFunc_arg :: "real \<Rightarrow> real \<Rightarrow> real \<Rightarrow> f32" where
  "ThetaFunc_arg px py pz = f32_div pz (ThetaFunc_divisor px py pz)"

definition ThetaFunc :: "real \<Rightarrow> real \<Rightarrow> real \<Rightarrow> fpval" where
  "ThetaFunc px py pz = f32_acos (ThetaFunc_arg px py pz)"

definition PhiFunc :: "real \<Rightarrow> real \<Rightarrow> real" where
  "PhiFunc px py =
     (let phi = std_atan2 py px
      in if phi < 0 then phi + 2 * pi else phi)"

section \<open>Four-vectors (ROOT's \<^verbatim>\<open>TLorentzVector\<close>)\<close>

text \<open>
  \<^verbatim>\<open>TLorentzVector(x, y, z, t)\<close> of ROOT: three momentum components and the energy, with
  componentwise sum and difference. Only the constructor, \<^verbatim>\<open>+\<close>, \<^verbatim>\<open>-\<close> and the
  accessors \<^verbatim>\<open>Px()\<close>, \<^verbatim>\<open>Py()\<close>, \<^verbatim>\<open>Pz()\<close> are used by the header.
\<close>

record TLorentzVector =
  Px :: real
  Py :: real
  Pz :: real
  E :: real

definition lv :: "real \<Rightarrow> real \<Rightarrow> real \<Rightarrow> real \<Rightarrow> TLorentzVector" where
  "lv x y z t = \<lparr>Px = x, Py = y, Pz = z, E = t\<rparr>"

definition lv_add :: "TLorentzVector \<Rightarrow> TLorentzVector \<Rightarrow> TLorentzVector" where
  "lv_add a b = \<lparr>Px = Px a + Px b, Py = Py a + Py b, Pz = Pz a + Pz b, E = E a + E b\<rparr>"

definition lv_sub :: "TLorentzVector \<Rightarrow> TLorentzVector \<Rightarrow> TLorentzVector" where
  "lv_sub a b = \<lparr>Px = Px a - Px b, Py = Py a - Py b, Pz = Pz a - Pz b, E = E a - E b\<rparr>"

section \<open>Missing-kaon reconstruction (lines 121--142 and 203--224)\<close>

text \<open>
  The three lambdas of \<^verbatim>\<open>InitKinematics_MissingKm\<close> build the same five four-vectors and
  differ in the accessor only; \<open>kMinus_miss\<close> is their common part.
\<close>

definition kMinus_miss ::
  "real \<Rightarrow> real \<Rightarrow> real \<Rightarrow> real \<Rightarrow> real \<Rightarrow> real \<Rightarrow> real \<Rightarrow> real \<Rightarrow> real \<Rightarrow> real \<Rightarrow> TLorentzVector" where
  "kMinus_miss beam_energy epx epy epz ppx ppy ppz kpx kpy kpz =
     (let pBeam = lv 0 0 beam_energy beam_energy;
          pTarg = lv 0 0 0 kMp;
          e = lv epx epy epz (sqrt (epx * epx + epy * epy + epz * epz + kMe * kMe));
          p = lv ppx ppy ppz (sqrt (ppx * ppx + ppy * ppy + ppz * ppz + kMp * kMp));
          kp = lv kpx kpy kpz (sqrt (kpx * kpx + kpy * kpy + kpz * kpz + kMK * kMK))
      in lv_sub (lv_sub (lv_sub (lv_add pBeam pTarg) e) p) kp)"

definition kMinus_miss_px ::
  "real \<Rightarrow> real \<Rightarrow> real \<Rightarrow> real \<Rightarrow> real \<Rightarrow> real \<Rightarrow> real \<Rightarrow> real \<Rightarrow> real \<Rightarrow> real \<Rightarrow> real" where
  "kMinus_miss_px beam_energy epx epy epz ppx ppy ppz kpx kpy kpz =
     Px (kMinus_miss beam_energy epx epy epz ppx ppy ppz kpx kpy kpz)"

definition kMinus_miss_py ::
  "real \<Rightarrow> real \<Rightarrow> real \<Rightarrow> real \<Rightarrow> real \<Rightarrow> real \<Rightarrow> real \<Rightarrow> real \<Rightarrow> real \<Rightarrow> real \<Rightarrow> real" where
  "kMinus_miss_py beam_energy epx epy epz ppx ppy ppz kpx kpy kpz =
     Py (kMinus_miss beam_energy epx epy epz ppx ppy ppz kpx kpy kpz)"

definition kMinus_miss_pz ::
  "real \<Rightarrow> real \<Rightarrow> real \<Rightarrow> real \<Rightarrow> real \<Rightarrow> real \<Rightarrow> real \<Rightarrow> real \<Rightarrow> real \<Rightarrow> real \<Rightarrow> real" where
  "kMinus_miss_pz beam_energy epx epy epz ppx ppy ppz kpx kpy kpz =
     Pz (kMinus_miss beam_energy epx epy epz ppx ppy ppz kpx kpy kpz)"

text \<open>The lambdas of \<^verbatim>\<open>InitKinematics_MissingKp\<close>, with the detected \<open>K\<^sup>-\<close>.\<close>

definition kPlus_miss ::
  "real \<Rightarrow> real \<Rightarrow> real \<Rightarrow> real \<Rightarrow> real \<Rightarrow> real \<Rightarrow> real \<Rightarrow> real \<Rightarrow> real \<Rightarrow> real \<Rightarrow> TLorentzVector" where
  "kPlus_miss beam_energy epx epy epz ppx ppy ppz kmx kmy kmz =
     (let pBeam = lv 0 0 beam_energy beam_energy;
          pTarg = lv 0 0 0 kMp;
          e = lv epx epy epz (sqrt (epx * epx + epy * epy + epz * epz + kMe * kMe));
          p = lv ppx ppy ppz (sqrt (ppx * ppx + ppy * ppy + ppz * ppz + kMp * kMp));
          km = lv kmx kmy kmz (sqrt (kmx * kmx + kmy * kmy + kmz * kmz + kMK * kMK))
      in lv_sub (lv_sub (lv_sub (lv_add pBeam pTarg) e) p) km)"

definition kPlus_miss_px ::
  "real \<Rightarrow> real \<Rightarrow> real \<Rightarrow> real \<Rightarrow> real \<Rightarrow> real \<Rightarrow> real \<Rightarrow> real \<Rightarrow> real \<Rightarrow> real \<Rightarrow> real" where
  "kPlus_miss_px beam_energy epx epy epz ppx ppy ppz kmx kmy kmz =
     Px (kPlus_miss beam_energy epx epy epz ppx ppy ppz kmx kmy kmz)"

definition kPlus_miss_py ::
  "real \<Rightarrow> real \<Rightarrow> real \<Rightarrow> real \<Rightarrow> real \<Rightarrow> real \<Rightarrow> real \<Rightarrow> real \<Rightarrow> real \<Rightarrow> real \<Rightarrow> real" where
  "kPlus_miss_py beam_energy epx epy epz ppx ppy ppz kmx kmy kmz =
     Py (kPlus_miss beam_energy epx epy epz ppx ppy ppz kmx kmy kmz)"

definition kPlus_miss_pz ::
  "real \<Rightarrow> real \<Rightarrow> real \<Rightarrow> real \<Rightarrow> real \<Rightarrow> real \<Rightarrow> real \<Rightarrow> real \<Rightarrow> real \<Rightarrow> real \<Rightarrow> real" where
  "kPlus_miss_pz beam_energy epx epy epz ppx ppy ppz kmx kmy kmz =
     Pz (kPlus_miss beam_energy epx epy epz ppx ppy ppz kmx kmy kmz)"

text \<open>
  The four-vector of a detected particle as the specification builds it: the momentum
  components and the on-shell energy for the rest mass \<open>m\<close>.
\<close>

definition on_shell :: "real \<Rightarrow> real \<Rightarrow> real \<Rightarrow> real \<Rightarrow> TLorentzVector" where
  "on_shell px py pz m = lv px py pz (sqrt (px\<^sup>2 + py\<^sup>2 + pz\<^sup>2 + m\<^sup>2))"

section \<open>Aliases of the missing-\<open>K\<^sup>+\<close> mode (lines 261--262)\<close>

definition Mx2_epKm_forCut :: "real \<Rightarrow> real" where
  "Mx2_epKm_forCut v = v"

definition Mx_epKm_forCut :: "real \<Rightarrow> real" where
  "Mx_epKm_forCut v = (if v > 0 then sqrt v else - 999.0)"

section \<open>Invariant mass of the kaon pair (lines 449--460)\<close>

definition mK :: real where "mK = 0.493677"

text \<open>The argument of the final \<^verbatim>\<open>std::sqrt\<close>: \<open>E*E - (px*px + py*py + pz*pz)\<close>.\<close>

definition invMass_KpKm_arg :: "real \<Rightarrow> real \<Rightarrow> real \<Rightarrow> real \<Rightarrow> real \<Rightarrow> real \<Rightarrow> real" where
  "invMass_KpKm_arg px1 py1 pz1 px2 py2 pz2 =
     (let E1 = sqrt (px1 * px1 + py1 * py1 + pz1 * pz1 + mK * mK);
          E2 = sqrt (px2 * px2 + py2 * py2 + pz2 * pz2 + mK * mK);
          px = px1 + px2;
          py = py1 + py2;
          pz = pz1 + pz2;
          E = E1 + E2
      in E * E - (px * px + py * py + pz * pz))"

text \<open>\<^verbatim>\<open>std::sqrt\<close> of a negative number is \<open>NaN\<close>.\<close>

definition std_sqrt :: "real \<Rightarrow> fpval" where
  "std_sqrt x = (if x < 0 then NaN else Finite (sqrt x))"

definition invMass_KpKm :: "real \<Rightarrow> real \<Rightarrow> real \<Rightarrow> real \<Rightarrow> real \<Rightarrow> real \<Rightarrow> fpval" where
  "invMass_KpKm px1 py1 pz1 px2 py2 pz2 =
     std_sqrt (invMass_KpKm_arg px1 py1 pz1 px2 py2 pz2)"

section \<open>Events\<close>

text \<open>
  One event is one entry of the tree: the branches the header reads are parallel arrays
  (\<^verbatim>\<open>ROOT::VecOps::RVec\<close>), one element per reconstructed particle. The species id is a
  C++ \<^verbatim>\<open>int\<close>, only ever compared with constants; the status code is a \<^verbatim>\<open>short\<close>.
\<close>

record event =
  REC_Particle_pid :: "int list"
  REC_Particle_px :: "real list"
  REC_Particle_py :: "real list"
  REC_Particle_pz :: "real list"
  REC_Particle_status :: "16 word list"
  REC_Particle_pass :: "bool list"
  REC_DaughterParticle_pass :: "bool list"

text \<open>
  \<^verbatim>\<open>RVec::operator[]\<close> does not check its index. Every loop of the header runs over
  \<^verbatim>\<open>pid.size()\<close> and reads the other arrays at the same index, so a read past the end of a
  shorter array is undefined behaviour; the model makes it the error \<open>OutOfRange\<close>.
\<close>

datatype error = OutOfRange

definition rvec_at :: "'a list \<Rightarrow> nat \<Rightarrow> error + 'a" where
  "rvec_at xs i = (if i < length xs then Inr (xs ! i) else Inl OutOfRange)"

definition bind_err :: "error + 'a \<Rightarrow> ('a \<Rightarrow> error + 'b) \<Rightarrow> error + 'b" where
  "bind_err r f = (case r of Inl err \<Rightarrow> Inl err | Inr x \<Rightarrow> f x)"

text \<open>An event as the specification has it: every particle has all of its attributes.\<close>

definition wf_event :: "event \<Rightarrow> bool" where
  "wf_event ev \<longleftrightarrow>
     length (REC_Particle_px ev) = length (REC_Particle_pid ev)
     \<and> length (REC_Particle_py ev) = length (REC_Particle_pid ev)
     \<and> length (REC_Particle_pz ev) = length (REC_Particle_pid ev)
     \<and> length (REC_Particle_status ev) = length (REC_Particle_pid ev)
     \<and> length (REC_Particle_pass ev) = length (REC_Particle_pid ev)
     \<and> length (REC_DaughterParticle_pass ev) = length (REC_Particle_pid ev)"

section \<open>Particle selection (lines 109--117, 191--199, 277--361)\<close>

text \<open>
  All the selection lambdas are the loop
  \<^verbatim>\<open>for (size_t i = 0; i < pid.size(); ++i) if (pid[i] == T && pass[i]) return px[i]; return -999.0f;\<close>
  for a species constant \<open>T\<close> and one momentum branch. \<open>&&\<close> reads \<^verbatim>\<open>pass[i]\<close> only
  when the species matches.
\<close>

function select_loop :: "int \<Rightarrow> int list \<Rightarrow> real list \<Rightarrow> bool list \<Rightarrow> nat \<Rightarrow> error + real" where
  "select_loop T pid px pass i =
     (if i < length pid then
        (if pid ! i = T then
           (case rvec_at pass i of
              Inl err \<Rightarrow> Inl err
            | Inr ok \<Rightarrow> if ok then rvec_at px i else select_loop T pid px pass (Suc i))
         else select_loop T pid px pass (Suc i))
      else Inr (- 999.0))"
  by pat_completeness auto
termination
  by (relation "measure (\<lambda>(T, pid, px, pass, i). length pid - i)") auto

declare select_loop.simps [simp del]

definition select_px :: "int \<Rightarrow> event \<Rightarrow> error + real" where
  "select_px T ev = select_loop T (REC_Particle_pid ev) (REC_Particle_px ev) (REC_Particle_pass ev) 0"

definition select_py :: "int \<Rightarrow> event \<Rightarrow> error + real" where
  "select_py T ev = select_loop T (REC_Particle_pid ev) (REC_Particle_py ev) (REC_Particle_pass ev) 0"

definition select_pz :: "int \<Rightarrow> event \<Rightarrow> error + real" where
  "select_pz T ev = select_loop T (REC_Particle_pid ev) (REC_Particle_pz ev) (REC_Particle_pass ev) 0"

text \<open>The three components of one species together: the selector of the specification.\<close>

definition select :: "int \<Rightarrow> event \<Rightarrow> error + real \<times> real \<times> real" where
  "select T ev =
     bind_err (select_px T ev) (\<lambda>x.
     bind_err (select_py T ev) (\<lambda>y.
     bind_err (select_pz T ev) (\<lambda>z. Inr (x, y, z))))"

section \<open>Selection predicates (lines 23--85)\<close>

text \<open>
  \<^verbatim>\<open>SelectExclusivePhiEvent\<close>. The counters are C++ \<^verbatim>\<open>int\<close>s that count particles of one
  event; they are modelled by \<^typ>\<open>int\<close> (an event of \<open>2\<^sup>3\<^sup>1\<close> particles is out of reach). In
  both kaon branches the right-hand side of the assignment to \<^verbatim>\<open>hasPhiDaughter\<close> is the
  variable itself: the disjunct with \<^verbatim>\<open>daughterPass[i]\<close> is inside a comment.
\<close>

function SelectExclusivePhiEvent_loop ::
  "int list \<Rightarrow> bool list \<Rightarrow> bool list \<Rightarrow> nat \<Rightarrow> int \<times> int \<times> int \<times> int \<times> bool \<Rightarrow> error + bool" where
  "SelectExclusivePhiEvent_loop pid pass daughterPass i (e, km, kp, p, hasPhiDaughter) =
     (if i < length pid then
        (case rvec_at pass i of
           Inl err \<Rightarrow> Inl err
         | Inr ok \<Rightarrow>
             if \<not> ok then
               SelectExclusivePhiEvent_loop pid pass daughterPass (Suc i) (e, km, kp, p, hasPhiDaughter)
             else if pid ! i = 11 then
               SelectExclusivePhiEvent_loop pid pass daughterPass (Suc i) (e + 1, km, kp, p, hasPhiDaughter)
             else if pid ! i = 321 then
               SelectExclusivePhiEvent_loop pid pass daughterPass (Suc i) (e, km, kp + 1, p, hasPhiDaughter)
             else if pid ! i = - 321 then
               SelectExclusivePhiEvent_loop pid pass daughterPass (Suc i) (e, km + 1, kp, p, hasPhiDaughter)
             else if pid ! i = 2212 then
               SelectExclusivePhiEvent_loop pid pass daughterPass (Suc i) (e, km, kp, p + 1, hasPhiDaughter)
             else
               SelectExclusivePhiEvent_loop pid pass daughterPass (Suc i) (e, km, kp, p, hasPhiDaughter))
      else Inr (e = 1 \<and> kp \<ge> 1 \<and> km \<ge> 1 \<and> p \<ge> 1 \<and> hasPhiDaughter))"
  by pat_completeness auto
termination
  by (relation "measure (\<lambda>(pid, pass, daughterPass, i, st). length pid - i)") auto

declare SelectExclusivePhiEvent_loop.simps [simp del]

definition SelectExclusivePhiEvent :: "event \<Rightarrow> error + bool" where
  "SelectExclusivePhiEvent ev =
     SelectExclusivePhiEvent_loop (REC_Particle_pid ev) (REC_Particle_pass ev)
       (REC_DaughterParticle_pass ev) 0 (0, 0, 0, 0, True)"

text \<open>\<^verbatim>\<open>RejectPi0TwoPhoton\<close>: the loop returns \<^verbatim>\<open>false\<close> from inside at a flagged particle.\<close>

function RejectPi0TwoPhoton_loop ::
  "int list \<Rightarrow> bool list \<Rightarrow> bool list \<Rightarrow> nat \<Rightarrow> int \<times> int \<times> int \<Rightarrow> error + bool" where
  "RejectPi0TwoPhoton_loop pid pass daughterPass i (e, g, p) =
     (if i < length pid then
        (case rvec_at pass i of
           Inl err \<Rightarrow> Inl err
         | Inr ok \<Rightarrow>
             if \<not> ok then RejectPi0TwoPhoton_loop pid pass daughterPass (Suc i) (e, g, p)
             else
               (case rvec_at daughterPass i of
                  Inl err \<Rightarrow> Inl err
                | Inr d \<Rightarrow>
                    if d then Inr False
                    else if pid ! i = 11 then
                      RejectPi0TwoPhoton_loop pid pass daughterPass (Suc i) (e + 1, g, p)
                    else if pid ! i = 22 then
                      RejectPi0TwoPhoton_loop pid pass daughterPass (Suc i) (e, g + 1, p)
                    else if pid ! i = 2212 then
                      RejectPi0TwoPhoton_loop pid pass daughterPass (Suc i) (e, g, p + 1)
                    else RejectPi0TwoPhoton_loop pid pass daughterPass (Suc i) (e, g, p)))
      else Inr (e = 1 \<and> g = 1 \<and> p = 1))"
  by pat_completeness auto
termination
  by (relation "measure (\<lambda>(pid, pass, daughterPass, i, st). length pid - i)") auto

declare RejectPi0TwoPhoton_loop.simps [simp del]

definition RejectPi0TwoPhoton :: "event \<Rightarrow> error + bool" where
  "RejectPi0TwoPhoton ev =
     RejectPi0TwoPhoton_loop (REC_Particle_pid ev) (REC_Particle_pass ev)
       (REC_DaughterParticle_pass ev) 0 (0, 0, 0)"

section \<open>All-detected mode: \<^verbatim>\<open>InitKinematics\<close> (lines 274--460)\<close>

text \<open>
  The four detector-region lambdas (lines 376--448) differ in the species constant only.
  \<^verbatim>\<open>std::abs\<close> is applied to the \<^verbatim>\<open>short\<close> after its promotion to \<^verbatim>\<open>int\<close>, so it
  cannot overflow.
\<close>

function det_region_loop :: "int \<Rightarrow> int list \<Rightarrow> 16 word list \<Rightarrow> bool list \<Rightarrow> nat \<Rightarrow> error + int" where
  "det_region_loop T pid status pass i =
     (if i < length pid then
        (if pid ! i = T then
           (case rvec_at pass i of
              Inl err \<Rightarrow> Inl err
            | Inr ok \<Rightarrow>
                if ok then
                  (case rvec_at status i of
                     Inl err \<Rightarrow> Inl err
                   | Inr s \<Rightarrow>
                       (let abs_status = \<bar>sint s\<bar>
                        in if abs_status \<ge> 1000 \<and> abs_status < 2000 then Inr 0
                           else if abs_status \<ge> 2000 \<and> abs_status < 3000 then Inr 1
                           else if abs_status \<ge> 4000 \<and> abs_status < 5000 then Inr 2
                           else Inr (- 1)))
                else det_region_loop T pid status pass (Suc i))
         else det_region_loop T pid status pass (Suc i))
      else Inr (- 1))"
  by pat_completeness auto
termination
  by (relation "measure (\<lambda>(T, pid, status, pass, i). length pid - i)") auto

declare det_region_loop.simps [simp del]

definition det_region :: "int \<Rightarrow> event \<Rightarrow> error + int" where
  "det_region T ev =
     det_region_loop T (REC_Particle_pid ev) (REC_Particle_status ev) (REC_Particle_pass ev) 0"

definition ele_det_region :: "event \<Rightarrow> error + int" where
  "ele_det_region ev = det_region 11 ev"

definition kMinus_det_region :: "event \<Rightarrow> error + int" where
  "kMinus_det_region ev = det_region (- 321) ev"

definition kPlus_det_region :: "event \<Rightarrow> error + int" where
  "kPlus_det_region ev = det_region 321 ev"

definition pro_det_region :: "event \<Rightarrow> error + int" where
  "pro_det_region ev = det_region 2212 ev"

text \<open>
  The chain of range tests that \<open>det_region_loop\<close> applies to \<open>abs_status\<close>, on its own:
  the lemmas about the loop are stated with it.
\<close>

definition region_of :: "int \<Rightarrow> int" where
  "region_of a =
     (if 1000 \<le> a \<and> a < 2000 then 0
      else if 2000 \<le> a \<and> a < 3000 then 1
      else if 4000 \<le> a \<and> a < 5000 then 2
      else - 1)"

text \<open>The filter of line 362, on the four selected \<open>px\<close> columns.\<close>

definition InitKinematics_filter :: "real \<Rightarrow> real \<Rightarrow> real \<Rightarrow> real \<Rightarrow> bool" where
  "InitKinematics_filter ex kMinusx kPlusx px \<longleftrightarrow>
     ex \<noteq> - 999 \<and> kMinusx \<noteq> - 999 \<and> kPlusx \<noteq> - 999 \<and> px \<noteq> - 999"

text \<open>
  The columns the pipeline defines for one species: the selected components, magnitude
  and angles, and the detector region.
\<close>

record particle_cols =
  sel_px :: real
  sel_py :: real
  sel_pz :: real
  rec_p :: real
  rec_theta :: fpval
  rec_phi :: real
  region :: int

record kin_row =
  row_ele :: particle_cols
  row_kMinus :: particle_cols
  row_kPlus :: particle_cols
  row_pro :: particle_cols
  row_invMass_KpKm :: fpval

definition particle_columns :: "int \<Rightarrow> event \<Rightarrow> error + particle_cols" where
  "particle_columns T ev =
     bind_err (select_px T ev) (\<lambda>x.
     bind_err (select_py T ev) (\<lambda>y.
     bind_err (select_pz T ev) (\<lambda>z.
     bind_err (det_region T ev) (\<lambda>r.
       Inr \<lparr>sel_px = x, sel_py = y, sel_pz = z,
            rec_p = MomentumFunc x y z, rec_theta = ThetaFunc x y z, rec_phi = PhiFunc x y,
            region = r\<rparr>))))"

text \<open>
  One event through the pipeline: \<open>None\<close> when the filter drops it, the derived columns
  otherwise. The filter needs the four \<open>px\<close> columns only; the other columns are computed
  for the events it keeps. The observables delegated to \<^verbatim>\<open>DISANAMath\<close>
  (\<^verbatim>\<open>define_DISCAT\<close>) are functions of these columns and of the beam energy; that class is
  not part of the header and they are left out of the row.
\<close>

definition InitKinematics :: "event \<Rightarrow> error + kin_row option" where
  "InitKinematics ev =
     bind_err (select_px 11 ev) (\<lambda>ex.
     bind_err (select_px (- 321) ev) (\<lambda>kMinusx.
     bind_err (select_px 321 ev) (\<lambda>kPlusx.
     bind_err (select_px 2212 ev) (\<lambda>px.
       if InitKinematics_filter ex kMinusx kPlusx px then
         bind_err (particle_columns 11 ev) (\<lambda>e.
         bind_err (particle_columns (- 321) ev) (\<lambda>km.
         bind_err (particle_columns 321 ev) (\<lambda>kp.
         bind_err (particle_columns 2212 ev) (\<lambda>p.
           Inr (Some \<lparr>row_ele = e, row_kMinus = km, row_kPlus = kp, row_pro = p,
                  row_invMass_KpKm =
                    invMass_KpKm (sel_px kp) (sel_py kp) (sel_pz kp)
                      (sel_px km) (sel_py km) (sel_pz km)\<rparr>)))))
       else Inr None))))"

section \<open>Vocabulary of the specification\<close>

text \<open>
  Particle \<open>i\<close> of the event is a candidate for species \<open>T\<close>: it has that species id and
  passes the quality selection.
\<close>

definition is_candidate :: "int \<Rightarrow> event \<Rightarrow> nat \<Rightarrow> bool" where
  "is_candidate T ev i \<longleftrightarrow>
     i < length (REC_Particle_pid ev) \<and> REC_Particle_pid ev ! i = T \<and> REC_Particle_pass ev ! i"

text \<open>Candidate \<open>i\<close> is the first one in stored order.\<close>

definition first_candidate :: "int \<Rightarrow> event \<Rightarrow> nat \<Rightarrow> bool" where
  "first_candidate T ev i \<longleftrightarrow>
     is_candidate T ev i \<and> list_all (\<lambda>j. \<not> is_candidate T ev j) [0..<i]"

definition no_candidate :: "int \<Rightarrow> event \<Rightarrow> bool" where
  "no_candidate T ev \<longleftrightarrow>
     list_all (\<lambda>j. \<not> is_candidate T ev j) [0..<length (REC_Particle_pid ev)]"

text \<open>
  The number of quality-passing particles of species \<open>T\<close> among the particles from
  position \<open>i\<close> on, and in the whole event.
\<close>

definition count_from :: "int \<Rightarrow> int list \<Rightarrow> bool list \<Rightarrow> nat \<Rightarrow> int" where
  "count_from T pid pass i =
     int (length (filter (\<lambda>k. pid ! k = T \<and> pass ! k) [i..<length pid]))"

definition count_passing :: "int \<Rightarrow> event \<Rightarrow> int" where
  "count_passing T ev = count_from T (REC_Particle_pid ev) (REC_Particle_pass ev) 0"

text \<open>
  Some quality-passing particle carries the daughter flag: from position \<open>i\<close> on, and in
  the whole event.
\<close>

definition flagged_from :: "int list \<Rightarrow> bool list \<Rightarrow> bool list \<Rightarrow> nat \<Rightarrow> bool" where
  "flagged_from pid pass daughterPass i \<longleftrightarrow>
     list_ex (\<lambda>k. pass ! k \<and> daughterPass ! k) [i..<length pid]"

definition flagged_daughter :: "event \<Rightarrow> bool" where
  "flagged_daughter ev \<longleftrightarrow>
     flagged_from (REC_Particle_pid ev) (REC_Particle_pass ev) (REC_DaughterParticle_pass ev) 0"

definition momentum_at :: "event \<Rightarrow> nat \<Rightarrow> real \<times> real \<times> real" where
  "momentum_at ev i = (REC_Particle_px ev ! i, REC_Particle_py ev ! i, REC_Particle_pz ev ! i)"

definition NOT_FOUND :: "real \<times> real \<times> real" where
  "NOT_FOUND = (- 999.0, - 999.0, - 999.0)"

section \<open>Example inputs\<close>

text \<open>
  The scenario of the specification: beam energy \<open>10.6\<close>, electron \<open>(0.1, 0.2, 9.0)\<close>,
  proton \<open>(0.3, -0.1, 1.0)\<close>, \<open>K\<^sup>+\<close> \<open>(0.05, 0.05, 0.5)\<close>. \<open>k_ex\<close> is the four-vector that
  balances them against beam and target.
\<close>

definition k_ex :: TLorentzVector where
  "k_ex = lv (- 0.45) (- 0.15) 0.1
     (10.6 + kMp - sqrt (0.1\<^sup>2 + 0.2\<^sup>2 + 9\<^sup>2 + kMe\<^sup>2) - sqrt (0.3\<^sup>2 + (- 0.1)\<^sup>2 + 1\<^sup>2 + kMp\<^sup>2)
      - sqrt (0.05\<^sup>2 + 0.05\<^sup>2 + 0.5\<^sup>2 + kMK\<^sup>2))"

text \<open>The same event with a second \<open>K\<^sup>+\<close> candidate behind the first, and no \<open>K\<^sup>-\<close>.\<close>

definition ev_two_kp :: event where
  "ev_two_kp =
     \<lparr>REC_Particle_pid = [11, 321, 2212, 321],
      REC_Particle_px = [0.1, 0.05, 0.3, 0.07],
      REC_Particle_py = [0.2, 0.05, - 0.1, 0.01],
      REC_Particle_pz = [9.0, 0.5, 1.0, 0.6],
      REC_Particle_status = [- 2100, 2200, 3500, 4100],
      REC_Particle_pass = [True, True, True, True],
      REC_DaughterParticle_pass = [False, False, False, False]\<rparr>"

text \<open>A complete event: one electron, one \<open>K\<^sup>+\<close>, one \<open>K\<^sup>-\<close>, one proton and a failed track.\<close>

definition ev_full :: event where
  "ev_full =
     \<lparr>REC_Particle_pid = [11, 321, 211, - 321, 2212],
      REC_Particle_px = [0.1, 0.05, 0.4, - 0.45, 0.3],
      REC_Particle_py = [0.2, 0.05, 0.4, - 0.15, - 0.1],
      REC_Particle_pz = [9.0, 0.5, 0.4, 0.1, 1.0],
      REC_Particle_status = [- 2100, 2200, 2300, 1500, 4100],
      REC_Particle_pass = [True, True, False, True, True],
      REC_DaughterParticle_pass = [False, False, False, False, False]\<rparr>"

text \<open>
  The complete event with an electron whose \<open>px\<close> is \<open>-999.0\<close>, the value of the sentinel.
\<close>

definition ev_px_sentinel :: event where
  "ev_px_sentinel = ev_full\<lparr>REC_Particle_px := [- 999.0, 0.05, 0.4, - 0.45, 0.3]\<rparr>"

text \<open>One electron, one photon, one proton; and the same with the photon flagged.\<close>

definition ev_photon :: event where
  "ev_photon =
     \<lparr>REC_Particle_pid = [11, 22, 2212],
      REC_Particle_px = [0.1, 0.2, 0.3],
      REC_Particle_py = [0.2, 0.1, - 0.1],
      REC_Particle_pz = [9.0, 0.6, 1.0],
      REC_Particle_status = [- 2100, 2050, 4100],
      REC_Particle_pass = [True, True, True],
      REC_DaughterParticle_pass = [False, False, False]\<rparr>"

definition ev_photon_flagged :: event where
  "ev_photon_flagged = ev_photon\<lparr>REC_DaughterParticle_pass := [False, True, False]\<rparr>"

section \<open>The geometry helpers\<close>

lemma std_atan2_range: "- pi < std_atan2 y x \<and> std_atan2 y x \<le> pi"
proof -
  have b: "- (pi / 2) < arctan (y / x)" "arctan (y / x) < pi / 2"
    by (rule arctan_lbound, rule arctan_ubound)
  have n: "x < 0 \<Longrightarrow> 0 \<le> y \<Longrightarrow> arctan (y / x) \<le> 0"
    by (metis divide_nonneg_neg not_less zero_less_arctan_iff)
  have p: "x < 0 \<Longrightarrow> y < 0 \<Longrightarrow> 0 < arctan (y / x)"
    by (simp add: divide_neg_neg)
  show ?thesis
    using b n p pi_gt_zero by (auto simp: std_atan2_def)
qed

text \<open>
  \<^bold>\<open>C5.\<close> For all momentum components the azimuthal angle \<open>PhiFunc px py\<close> lies in the
  half-open interval \<open>[0, 2\<pi>)\<close>. \<open>PhiFunc 1 (-1)\<close> is \<open>7\<pi>/4\<close> and \<open>PhiFunc 1 1\<close> is
  \<open>\<pi>/4\<close>: they differ by \<open>3\<pi>/2\<close>, which is \<open>\<pi>/2\<close> in magnitude modulo \<open>2\<pi>\<close>.
\<close>

theorem PhiFunc_range:
  "0 \<le> PhiFunc px py \<and> PhiFunc px py < 2 * pi
   \<and> PhiFunc 1 (- 1) = 7 * pi / 4 \<and> PhiFunc 1 1 = pi / 4
   \<and> PhiFunc 1 (- 1) - PhiFunc 1 1 = 3 * pi / 2
   \<and> \<bar>PhiFunc 1 (- 1) - 2 * pi - PhiFunc 1 1\<bar> = pi / 2"
proof -
  have r: "- pi < std_atan2 py px" "std_atan2 py px \<le> pi"
    using std_atan2_range [of py px] by simp_all
  have a: "0 \<le> PhiFunc px py \<and> PhiFunc px py < 2 * pi"
    using r pi_gt_zero by (simp add: PhiFunc_def Let_def)
  have m: "std_atan2 (- 1) 1 = - (pi / 4)"
    by (simp add: std_atan2_def arctan_minus arctan_one)
  have q: "std_atan2 1 1 = pi / 4"
    by (simp add: std_atan2_def arctan_one)
  have b: "PhiFunc 1 (- 1) = 7 * pi / 4"
    using pi_gt_zero by (simp add: PhiFunc_def Let_def m)
  have c: "PhiFunc 1 1 = pi / 4"
    using pi_gt_zero by (simp add: PhiFunc_def Let_def q)
  have d: "PhiFunc 1 (- 1) - PhiFunc 1 1 = 3 * pi / 2"
    by (simp add: b c)
  have e: "\<bar>PhiFunc 1 (- 1) - 2 * pi - PhiFunc 1 1\<bar> = pi / 2"
    using pi_gt_zero by (simp add: b c)
  show ?thesis using a b c d e by simp
qed

section \<open>Rounding to binary32\<close>

subsection \<open>round_even\<close>

lemma round_even_cases:
  "round_even w = \<lfloor>w\<rfloor> \<or> round_even w = \<lfloor>w\<rfloor> + 1"
  by (simp add: round_even_def Let_def)

lemma round_even_of_int [simp]: "round_even (of_int n) = n"
  by (simp add: round_even_def)

lemma round_even_ge: "of_int n \<le> w \<Longrightarrow> n \<le> round_even w"
proof -
  assume "of_int n \<le> w"
  then have "n \<le> \<lfloor>w\<rfloor>" by (simp add: le_floor_iff)
  then show ?thesis using round_even_cases [of w] by linarith
qed

lemma round_even_le: "w \<le> of_int n \<Longrightarrow> round_even w \<le> n"
proof -
  assume h: "w \<le> of_int n"
  show ?thesis
  proof (cases "w = of_int n")
    case True
    then show ?thesis by simp
  next
    case False
    with h have "w < of_int n" by simp
    then have "\<lfloor>w\<rfloor> < n" by (simp add: floor_less_iff)
    then show ?thesis using round_even_cases [of w] by linarith
  qed
qed

lemma round_even_near:
  assumes "of_int n - 1 / 2 < w" and "w < of_int n + 1 / 2"
  shows "round_even w = n"
proof (cases "of_int n \<le> w")
  case True
  then have f: "\<lfloor>w\<rfloor> = n" using assms(2) by (simp add: floor_eq_iff)
  then show ?thesis using assms(2) by (simp add: round_even_def Let_def)
next
  case False
  then have f: "\<lfloor>w\<rfloor> = n - 1" using assms(1) by (simp add: floor_eq_iff)
  then show ?thesis using assms(1) by (simp add: round_even_def Let_def)
qed

lemma round_even_half_down:
  assumes "\<bar>w\<bar> \<le> 1 / 2"
  shows "round_even w = 0"
proof -
  consider "w = 1 / 2" | "w = - (1 / 2)" | "- (1 / 2) < w \<and> w < 1 / 2"
    using assms by linarith
  then show ?thesis
  proof cases
    case 1
    have "round_even (1 / 2) = 0" by (simp add: round_even_def Let_def)
    then show ?thesis unfolding 1 .
  next
    case 2
    have "\<lfloor>- (1 / 2) :: real\<rfloor> = - 1" by (simp add: floor_eq_iff)
    then have "round_even (- (1 / 2)) = 0" by (simp add: round_even_def Let_def)
    then show ?thesis unfolding 2 .
  next
    case 3
    then show ?thesis using round_even_near [of 0 w] by simp
  qed
qed

lemma round_even_eq_0_iff: "round_even w = 0 \<longleftrightarrow> \<bar>w\<bar> \<le> 1 / 2"
proof
  assume z: "round_even w = 0"
  show "\<bar>w\<bar> \<le> 1 / 2"
  proof (rule ccontr)
    assume "\<not> \<bar>w\<bar> \<le> 1 / 2"
    then consider "1 / 2 < w" | "w < - (1 / 2)" by linarith
    then show False
    proof cases
      case 1
      show False
      proof (cases "1 \<le> w")
        case True
        then have "1 \<le> round_even w" using round_even_ge [of 1 w] by simp
        with z show False by simp
      next
        case False
        then have "round_even w = 1" using 1 round_even_near [of 1 w] by simp
        with z show False by simp
      qed
    next
      case 2
      show False
      proof (cases "w \<le> - 1")
        case True
        then have "round_even w \<le> - 1" using round_even_le [of w "- 1"] by simp
        with z show False by simp
      next
        case False
        then have "round_even w = - 1" using 2 round_even_near [of "- 1" w] by simp
        with z show False by simp
      qed
    qed
  qed
next
  assume "\<bar>w\<bar> \<le> 1 / 2"
  then show "round_even w = 0" by (rule round_even_half_down)
qed

lemma round_even_mono: "v \<le> w \<Longrightarrow> round_even v \<le> round_even w"
proof -
  assume h: "v \<le> w"
  have fl: "\<lfloor>v\<rfloor> \<le> \<lfloor>w\<rfloor>" using h by (rule floor_mono)
  show ?thesis
  proof (cases "\<lfloor>v\<rfloor> < \<lfloor>w\<rfloor>")
    case True
    then show ?thesis
      using round_even_cases [of v] round_even_cases [of w] by linarith
  next
    case False
    with fl have e: "\<lfloor>v\<rfloor> = \<lfloor>w\<rfloor>" by simp
    then show ?thesis
      using h by (auto simp: round_even_def Let_def)
  qed
qed

lemma round_even_minus: "round_even (- w) = - round_even w"
proof (cases "w = of_int \<lfloor>w\<rfloor>")
  case True
  then obtain n where "w = of_int n" by metis
  then have "- w = of_int (- n)" by simp
  then show ?thesis using \<open>w = of_int n\<close> round_even_of_int by metis
next
  case False
  then have f: "\<lfloor>- w\<rfloor> = - \<lfloor>w\<rfloor> - 1"
    by (simp add: floor_eq_iff) linarith
  have lt: "of_int \<lfloor>w\<rfloor> < w" using False by (metis of_int_floor_le order_le_less)
  show ?thesis
    using lt by (auto simp: round_even_def Let_def f)
qed
subsection \<open>Exponent and ulp\<close>

lemma f32_exponent_ge: "- 126 \<le> f32_exponent x"
  by (simp add: f32_exponent_def)

lemma f32_exponent_minus [simp]: "f32_exponent (- x) = f32_exponent x"
  by (simp add: f32_exponent_def)

lemma f32_ulp_minus [simp]: "f32_ulp (- x) = f32_ulp x"
  by (simp add: f32_ulp_def)

lemma f32_ulp_pos [simp]: "0 < f32_ulp x"
  by (simp add: f32_ulp_def)

lemma f32_ulp_nonneg [simp]: "0 \<le> f32_ulp x"
  using f32_ulp_pos [of x] by linarith

lemma f32_ulp_neq_0 [simp]: "f32_ulp x \<noteq> 0"
  using f32_ulp_pos [of x] by linarith

lemma f32_exponent_upper:
  assumes "x \<noteq> 0"
  shows "\<bar>x\<bar> < 2 powr of_int (f32_exponent x + 1)"
proof -
  have p: "0 < \<bar>x\<bar>" using assms by simp
  have "log 2 \<bar>x\<bar> < of_int (\<lfloor>log 2 \<bar>x\<bar>\<rfloor> + 1)" by linarith
  also have "\<dots> \<le> of_int (f32_exponent x + 1)"
    by (simp add: f32_exponent_def)
  finally have "log 2 \<bar>x\<bar> < of_int (f32_exponent x + 1)" .
  then show ?thesis using p by (simp add: log_less_iff)
qed

lemma f32_exponent_lower:
  assumes "x \<noteq> 0" and "- 126 < f32_exponent x"
  shows "2 powr of_int (f32_exponent x) \<le> \<bar>x\<bar>"
proof -
  have p: "0 < \<bar>x\<bar>" using assms by simp
  have e: "f32_exponent x = \<lfloor>log 2 \<bar>x\<bar>\<rfloor>"
    using assms(2) by (simp add: f32_exponent_def max_def split: if_splits)
  have "of_int \<lfloor>log 2 \<bar>x\<bar>\<rfloor> \<le> log 2 \<bar>x\<bar>" by simp
  then have "2 powr of_int \<lfloor>log 2 \<bar>x\<bar>\<rfloor> \<le> \<bar>x\<bar>"
    using p le_log_iff [of 2 "\<bar>x\<bar>" "of_int \<lfloor>log 2 \<bar>x\<bar>\<rfloor>"] by simp
  then show ?thesis by (simp add: e)
qed

lemma f32_exponent_eqI:
  assumes "- 126 \<le> k" and "2 powr of_int k \<le> \<bar>x\<bar>" and "\<bar>x\<bar> < 2 powr of_int (k + 1)"
  shows "f32_exponent x = k"
proof -
  have p: "0 < \<bar>x\<bar>" using assms(2) powr_gt_zero [of 2 "of_int k"] by linarith
  have "\<lfloor>log 2 \<bar>x\<bar>\<rfloor> = k"
    using assms(2,3) p by (simp add: floor_log_eq_powr_iff)
  then show ?thesis using assms(1) by (simp add: f32_exponent_def)
qed

lemma f32_exponent_subnormal:
  assumes "x \<noteq> 0" and "\<bar>x\<bar> < 2 powr (- 126)"
  shows "f32_exponent x = - 126"
proof -
  have p: "0 < \<bar>x\<bar>" using assms by simp
  have "log 2 \<bar>x\<bar> < - 126" using assms(2) p by (simp add: log_less_iff)
  then have "\<lfloor>log 2 \<bar>x\<bar>\<rfloor> < - 126" by (simp add: floor_less_iff)
  then show ?thesis by (simp add: f32_exponent_def)
qed

lemma f32_exponent_mono:
  assumes "x \<noteq> 0" and "\<bar>x\<bar> \<le> \<bar>y\<bar>"
  shows "f32_exponent x \<le> f32_exponent y"
proof -
  have "log 2 \<bar>x\<bar> \<le> log 2 \<bar>y\<bar>" using assms by (intro log_mono) simp_all
  then have "\<lfloor>log 2 \<bar>x\<bar>\<rfloor> \<le> \<lfloor>log 2 \<bar>y\<bar>\<rfloor>" by (rule floor_mono)
  then show ?thesis by (simp add: f32_exponent_def)
qed

lemma f32_ulp_eq: "f32_ulp x = 2 powr of_int (f32_exponent x) / 2 ^ 23"
proof -
  have "(2::real) powr of_int (f32_exponent x - 23) = 2 powr of_int (f32_exponent x) / 2 powr 23"
    by (simp add: powr_diff)
  then show ?thesis by (simp add: f32_ulp_def)
qed

lemma quotient_upper:
  assumes "x \<noteq> 0"
  shows "\<bar>x\<bar> / f32_ulp x < 2 ^ 24"
proof -
  have "\<bar>x\<bar> < 2 powr of_int (f32_exponent x + 1)" by (rule f32_exponent_upper [OF assms])
  also have "\<dots> = 2 * 2 powr of_int (f32_exponent x)" by (simp add: powr_add)
  also have "\<dots> = 2 ^ 24 * f32_ulp x" by (simp add: f32_ulp_eq)
  finally show ?thesis by (simp add: pos_divide_less_eq)
qed

lemma quotient_lower:
  assumes "x \<noteq> 0" and "- 126 < f32_exponent x"
  shows "2 ^ 23 \<le> \<bar>x\<bar> / f32_ulp x"
proof -
  have "2 ^ 23 * f32_ulp x = 2 powr of_int (f32_exponent x)" by (simp add: f32_ulp_eq)
  also have "\<dots> \<le> \<bar>x\<bar>" by (rule f32_exponent_lower [OF assms])
  finally show ?thesis by (simp add: pos_le_divide_eq)
qed

subsection \<open>Rounding\<close>

lemma fl32_0 [simp]: "fl32 0 = 0"
  by (simp add: fl32_def)

lemma fl32_minus: "fl32 (- x) = - fl32 x"
  by (simp add: fl32_def round_even_minus)

lemma fl32_nonneg: "0 \<le> x \<Longrightarrow> 0 \<le> fl32 x"
proof -
  assume "0 \<le> x"
  then have "0 \<le> x / f32_ulp x" by simp
  then have "0 \<le> round_even (x / f32_ulp x)" using round_even_ge [of 0] by simp
  then show ?thesis by (simp add: fl32_def)
qed

lemma fl32_exact:
  assumes "x / f32_ulp x = of_int n"
  shows "fl32 x = x"
proof (cases "x = 0")
  case True
  then show ?thesis by simp
next
  case False
  have "of_int (round_even (x / f32_ulp x)) * f32_ulp x = (x / f32_ulp x) * f32_ulp x"
    unfolding assms by simp
  then show ?thesis using False by (simp add: fl32_def)
qed

lemma fl32_error: "\<bar>fl32 x - x\<bar> \<le> f32_ulp x / 2"
proof (cases "x = 0")
  case True
  then show ?thesis by simp
next
  case False
  let ?w = "x / f32_ulp x"
  have "\<bar>of_int (round_even ?w) - ?w\<bar> \<le> 1 / 2"
    by (auto simp: round_even_def Let_def)
  then have "\<bar>of_int (round_even ?w) - ?w\<bar> * f32_ulp x \<le> 1 / 2 * f32_ulp x"
    by (intro mult_right_mono) simp_all
  moreover have "\<bar>of_int (round_even ?w) - ?w\<bar> * f32_ulp x = \<bar>fl32 x - x\<bar>"
  proof -
    have "\<bar>of_int (round_even ?w) - ?w\<bar> * f32_ulp x =
        \<bar>(of_int (round_even ?w) - ?w) * f32_ulp x\<bar>"
      by (simp add: abs_mult)
    also have "(of_int (round_even ?w) - ?w) * f32_ulp x = fl32 x - x"
      using False by (simp add: fl32_def algebra_simps)
    finally show ?thesis .
  qed
  ultimately show ?thesis by simp
qed

lemma fl32_eq_0_iff: "fl32 x = 0 \<longleftrightarrow> \<bar>x\<bar> \<le> 2 powr (- 150)"
proof (cases "x = 0")
  case True
  then show ?thesis by simp
next
  case False
  have z: "fl32 x = 0 \<longleftrightarrow> \<bar>x / f32_ulp x\<bar> \<le> 1 / 2"
    using False by (simp add: fl32_def round_even_eq_0_iff)
  show ?thesis
  proof (cases "- 126 < f32_exponent x")
    case True
    have q: "\<bar>x / f32_ulp x\<bar> = \<bar>x\<bar> / f32_ulp x" by (simp add: abs_divide)
    have "2 ^ 23 \<le> \<bar>x\<bar> / f32_ulp x" by (rule quotient_lower [OF False True])
    moreover have "(1::real) \<le> 2 ^ 23" by simp
    ultimately have a: "\<not> \<bar>x / f32_ulp x\<bar> \<le> 1 / 2" unfolding q by linarith
    have "(2::real) powr (- 150) < 2 powr of_int (f32_exponent x)"
      using True by simp
    also have "\<dots> \<le> \<bar>x\<bar>" by (rule f32_exponent_lower [OF False True])
    finally have b: "\<not> \<bar>x\<bar> \<le> 2 powr (- 150)" by simp
    show ?thesis using z a b by simp
  next
    case F: False
    then have e: "f32_exponent x = - 126" using f32_exponent_ge [of x] by linarith
    have u: "f32_ulp x = 2 powr (- 149)" by (simp add: f32_ulp_def e)
    have h: "(2::real) powr (- 149) / 2 = 2 powr (- 150)"
      by (simp add: powr_minus)
    have "\<bar>x / f32_ulp x\<bar> \<le> 1 / 2 \<longleftrightarrow> \<bar>x\<bar> \<le> 2 powr (- 149) / 2"
      by (simp add: u pos_divide_le_eq)
    then show ?thesis using z h by simp
  qed
qed
lemma f32_exponent_char:
  assumes "- 126 \<le> k" and "x \<noteq> 0" and "\<bar>x\<bar> < 2 powr of_int (k + 1)"
    and "- 126 < k \<Longrightarrow> 2 powr of_int k \<le> \<bar>x\<bar>"
  shows "f32_exponent x = k"
proof (cases "- 126 < k")
  case True
  then show ?thesis using assms by (intro f32_exponent_eqI) simp_all
next
  case False
  with assms(1) have k: "k = - 126" by simp
  have p: "0 < \<bar>x\<bar>" using assms(2) by simp
  have "log 2 \<bar>x\<bar> < of_int (k + 1)" using assms(3) p by (simp add: log_less_iff)
  then have "\<lfloor>log 2 \<bar>x\<bar>\<rfloor> < k + 1" using floor_less_iff by blast
  then show ?thesis using k by (simp add: f32_exponent_def)
qed

lemma powr_exp_ulp: "2 powr of_int (f32_exponent x) = 2 ^ 23 * f32_ulp x"
  by (simp add: f32_ulp_eq)

lemma powr_exp_Suc_ulp: "2 powr of_int (f32_exponent x + 1) = 2 ^ 24 * f32_ulp x"
  by (simp add: f32_ulp_eq powr_add)

lemma fl32_upper:
  assumes "0 < x"
  shows "fl32 x \<le> 2 ^ 24 * f32_ulp x"
proof -
  have "x / f32_ulp x < 2 ^ 24" using quotient_upper [of x] assms by simp
  then have "x / f32_ulp x \<le> of_int (2 ^ 24)" by simp
  then have "round_even (x / f32_ulp x) \<le> 2 ^ 24" by (rule round_even_le)
  then have "real_of_int (round_even (x / f32_ulp x)) \<le> 2 ^ 24"
    by (metis of_int_le_iff of_int_numeral of_int_power)
  then have "real_of_int (round_even (x / f32_ulp x)) * f32_ulp x \<le> 2 ^ 24 * f32_ulp x"
    by (intro mult_right_mono) simp_all
  then show ?thesis using assms by (simp add: fl32_def)
qed

lemma fl32_lower:
  assumes "0 < x" and "- 126 < f32_exponent x"
  shows "2 ^ 23 * f32_ulp x \<le> fl32 x"
proof -
  have "2 ^ 23 \<le> x / f32_ulp x" using quotient_lower [of x] assms by simp
  then have "of_int (2 ^ 23) \<le> x / f32_ulp x" by simp
  then have "2 ^ 23 \<le> round_even (x / f32_ulp x)" by (rule round_even_ge)
  then have "2 ^ 23 \<le> real_of_int (round_even (x / f32_ulp x))"
    by (metis of_int_le_iff of_int_numeral of_int_power)
  then have "2 ^ 23 * f32_ulp x \<le> real_of_int (round_even (x / f32_ulp x)) * f32_ulp x"
    by (intro mult_right_mono) simp_all
  then show ?thesis using assms by (simp add: fl32_def)
qed

lemma fl32_mono_pos:
  assumes "0 < x" and "x \<le> y"
  shows "fl32 x \<le> fl32 y"
proof -
  have y: "0 < y" using assms by linarith
  have le: "f32_exponent x \<le> f32_exponent y"
    using assms by (intro f32_exponent_mono) simp_all
  show ?thesis
  proof (cases "f32_exponent x = f32_exponent y")
    case True
    then have u: "f32_ulp x = f32_ulp y" by (simp add: f32_ulp_def)
    have "x / f32_ulp y \<le> y / f32_ulp y"
      using assms(2) by (simp add: divide_right_mono)
    then have "round_even (x / f32_ulp y) \<le> round_even (y / f32_ulp y)"
      by (rule round_even_mono)
    then have "real_of_int (round_even (x / f32_ulp y)) * f32_ulp y
        \<le> real_of_int (round_even (y / f32_ulp y)) * f32_ulp y"
      by (intro mult_right_mono) simp_all
    then show ?thesis using assms(1) y by (simp add: fl32_def u)
  next
    case False
    with le have lt: "f32_exponent x + 1 \<le> f32_exponent y" by simp
    have ey: "- 126 < f32_exponent y" using lt f32_exponent_ge [of x] by linarith
    have "fl32 x \<le> 2 ^ 24 * f32_ulp x" by (rule fl32_upper [OF assms(1)])
    also have "\<dots> = 2 powr of_int (f32_exponent x + 1)" by (simp only: powr_exp_Suc_ulp)
    also have "\<dots> \<le> 2 powr of_int (f32_exponent y)" using lt by simp
    also have "\<dots> = 2 ^ 23 * f32_ulp y" by (simp only: powr_exp_ulp)
    also have "\<dots> \<le> fl32 y" by (rule fl32_lower [OF y ey])
    finally show ?thesis .
  qed
qed

lemma fl32_mono:
  assumes "x \<le> y"
  shows "fl32 x \<le> fl32 y"
proof -
  consider "0 < x" | "x \<le> 0" "0 \<le> y" | "y < 0" using assms by linarith
  then show ?thesis
  proof cases
    case 1
    then show ?thesis using assms by (rule fl32_mono_pos)
  next
    case 2
    have "0 \<le> fl32 (- x)" using 2(1) by (intro fl32_nonneg) simp
    then have "fl32 x \<le> 0" by (simp add: fl32_minus)
    also have "0 \<le> fl32 y" using 2(2) by (rule fl32_nonneg)
    finally show ?thesis .
  next
    case 3
    then have "fl32 (- y) \<le> fl32 (- x)" using assms by (intro fl32_mono_pos) simp_all
    then show ?thesis by (simp add: fl32_minus)
  qed
qed

lemma fl32_idem_pos:
  assumes "0 < x"
  shows "fl32 (fl32 x) = fl32 x"
proof -
  let ?u = "f32_ulp x" and ?e = "f32_exponent x"
  define n where "n = round_even (x / ?u)"
  have c: "fl32 x = of_int n * ?u" using assms by (simp add: fl32_def n_def)
  have "of_int 0 \<le> x / ?u" using assms by simp
  then have n0: "0 \<le> n" unfolding n_def by (rule round_even_ge)
  have n24: "real_of_int n \<le> 2 ^ 24"
    using fl32_upper [OF assms] c by simp
  show ?thesis
  proof (cases "n = 0")
    case True
    then show ?thesis by (simp add: c)
  next
    case nz: False
    with n0 have npos: "0 < real_of_int n" by simp
    have cpos: "0 < fl32 x" using npos by (simp add: c)
    show ?thesis
    proof (cases "real_of_int n = 2 ^ 24")
      case True
      have v: "fl32 x = 2 powr of_int (?e + 1)" by (simp only: c True powr_exp_Suc_ulp)
      have "f32_exponent (fl32 x) = ?e + 1"
        using f32_exponent_ge [of x] by (intro f32_exponent_eqI) (simp_all add: v)
      then have "f32_ulp (fl32 x) = 2 * ?u" by (simp add: f32_ulp_eq powr_add)
      then have "fl32 x / f32_ulp (fl32 x) = of_int (2 ^ 23)" by (simp add: c True)
      then show ?thesis by (rule fl32_exact)
    next
      case False
      with n24 have lt: "real_of_int n < 2 ^ 24" by simp
      have "f32_exponent (fl32 x) = ?e"
      proof (rule f32_exponent_char)
        show "- 126 \<le> ?e" by (rule f32_exponent_ge)
        show "fl32 x \<noteq> 0" using cpos by simp
        have "of_int n * ?u < 2 ^ 24 * ?u" using lt by simp
        then show "\<bar>fl32 x\<bar> < 2 powr of_int (?e + 1)"
          using cpos by (simp only: powr_exp_Suc_ulp c)
        show "2 powr of_int ?e \<le> \<bar>fl32 x\<bar>" if "- 126 < ?e"
          using fl32_lower [OF assms that] cpos by (simp only: powr_exp_ulp)
      qed
      then have "f32_ulp (fl32 x) = ?u" by (simp add: f32_ulp_def)
      then have "fl32 x / f32_ulp (fl32 x) = of_int n" by (simp add: c)
      then show ?thesis by (rule fl32_exact)
    qed
  qed
qed

lemma fl32_idem: "fl32 (fl32 x) = fl32 x"
proof -
  consider "0 < x" | "x = 0" | "x < 0" by linarith
  then show ?thesis
  proof cases
    case 1
    then show ?thesis by (rule fl32_idem_pos)
  next
    case 2
    then show ?thesis by simp
  next
    case 3
    then have "fl32 (fl32 (- x)) = fl32 (- x)" by (intro fl32_idem_pos) simp
    then show ?thesis by (simp add: fl32_minus)
  qed
qed
lemma fl32_pos_ge_min:
  assumes "0 < fl32 w"
  shows "2 powr (- 149) \<le> fl32 w"
proof -
  have wz: "w \<noteq> 0" using assms by auto
  define n where "n = round_even (w / f32_ulp w)"
  have c: "fl32 w = of_int n * f32_ulp w" using wz by (simp add: fl32_def n_def)
  have "0 < real_of_int n * f32_ulp w" using assms c by simp
  then have "0 < real_of_int n"
    using f32_ulp_pos [of w] by (metis zero_less_mult_pos2)
  then have "1 \<le> real_of_int n" by simp
  then have "1 * f32_ulp w \<le> real_of_int n * f32_ulp w"
    by (intro mult_right_mono) simp_all
  moreover have "(2::real) powr (- 149) \<le> f32_ulp w"
    using f32_exponent_ge [of w] by (simp add: f32_ulp_def)
  ultimately show ?thesis unfolding c by linarith
qed

lemma quotient_23:
  assumes "0 < (y::real)" and "u = y / 2 ^ 23"
  shows "y / u = of_int (2 ^ 23)"
proof -
  have "y / (y / 2 ^ 23) = 2 ^ 23" using assms(1) by simp
  then show ?thesis unfolding assms(2) by simp
qed

lemma lin_rel: "(a::real) - u / 2 \<le> f \<Longrightarrow> u \<le> d \<Longrightarrow> k = a - d / 2 \<Longrightarrow> k \<le> f"
  by linarith

lemma square_mid_less:
  fixes n :: real
  assumes "2 ^ 23 \<le> n" and "n \<le> 2 ^ 24 - 1"
  shows "(n - 1 / 2)\<^sup>2 < n\<^sup>2 * (1 - 1 / 2 ^ 24)"
proof -
  have "n * 1 \<le> n * (2 ^ 24 - n)"
    using assms by (intro mult_left_mono) simp_all
  then have "2 ^ 23 \<le> n * (2 ^ 24 - n)" using assms(1) by linarith
  then have "n\<^sup>2 + 2 ^ 23 \<le> 2 ^ 24 * n"
    by (simp add: power2_eq_square algebra_simps)
  then have "n\<^sup>2 / 2 ^ 24 + 1 / 2 \<le> n"
    by (simp add: field_simps)
  then have "n\<^sup>2 - n + 1 / 4 < n\<^sup>2 - n\<^sup>2 / 2 ^ 24"
    by linarith
  moreover have "(n - 1 / 2)\<^sup>2 = n\<^sup>2 - n + 1 / 4"
    by (simp add: power2_eq_square algebra_simps)
  moreover have "n\<^sup>2 * (1 - 1 / 2 ^ 24) = n\<^sup>2 - n\<^sup>2 / 2 ^ 24"
    by (simp add: algebra_simps)
  ultimately show ?thesis by simp
qed

lemma fl32_power_of_two_square:
  assumes "- 63 \<le> e"
  shows "fl32 (2 powr of_int e * 2 powr of_int e) = 2 powr of_int e * 2 powr of_int e"
proof -
  let ?y = "(2::real) powr of_int e * 2 powr of_int e"
  have y2: "?y = 2 powr of_int (2 * e)"
  proof -
    have "?y = 2 powr (of_int e + of_int e)" by (simp only: powr_add)
    then show ?thesis by simp
  qed
  have ex: "f32_exponent (2 powr of_int (2 * e)) = 2 * e"
    using assms by (intro f32_exponent_eqI) simp_all
  have "f32_ulp (2 powr of_int (2 * e)) = 2 powr of_int (2 * e) / 2 ^ 23"
    by (simp only: f32_ulp_eq ex)
  then have "2 powr of_int (2 * e) / f32_ulp (2 powr of_int (2 * e)) = of_int (2 ^ 23)"
    by (intro quotient_23) simp_all
  then have "fl32 (2 powr of_int (2 * e)) = 2 powr of_int (2 * e)" by (rule fl32_exact)
  then show ?thesis by (simp only: y2)
qed

lemma fl32_rel_lower:
  assumes "2 powr (- 126) \<le> y"
  shows "y * (1 - 1 / 2 ^ 24) \<le> fl32 y"
proof -
  have ypos: "0 < y" using assms powr_gt_zero [of 2 "- 126"] by linarith
  have ey: "2 powr of_int (f32_exponent y) \<le> y"
  proof (cases "- 126 < f32_exponent y")
    case True
    then show ?thesis using f32_exponent_lower [of y] ypos by simp
  next
    case False
    then have "f32_exponent y = - 126" using f32_exponent_ge [of y] by linarith
    then show ?thesis using assms by simp
  qed
  have "f32_ulp y = 2 powr of_int (f32_exponent y) / 2 ^ 23" by (rule f32_ulp_eq)
  also have "\<dots> \<le> y / 2 ^ 23" using ey by (simp add: divide_right_mono)
  finally have uy: "f32_ulp y \<le> y / 2 ^ 23" .
  have "\<bar>fl32 y - y\<bar> \<le> f32_ulp y / 2" by (rule fl32_error)
  then have a: "y - f32_ulp y / 2 \<le> fl32 y" by linarith
  have b: "y * (1 - 1 / 2 ^ 24) = y - (y / 2 ^ 23) / 2"
    by (simp add: algebra_simps)
  show ?thesis by (rule lin_rel [OF a uy b])
qed

lemma fl32_round_up:
  assumes xpos: "0 < x" and xn: "x = of_int n * f32_ulp x" and n: "2 ^ 23 + 1 \<le> real_of_int n"
    and lo: "(real_of_int n - 1 / 2) * f32_ulp x < z" and hi: "z < x"
    and e126: "- 126 < f32_exponent x"
  shows "fl32 z = x"
proof -
  let ?u = "f32_ulp x" and ?e = "f32_exponent x"
  have "2 ^ 23 * ?u \<le> (real_of_int n - 1 / 2) * ?u"
    using n by (intro mult_right_mono) simp_all
  then have lowz: "2 ^ 23 * ?u < z" using lo by linarith
  moreover have "0 < 2 ^ 23 * ?u" by simp
  ultimately have zpos: "0 < z" by linarith
  have "f32_exponent z = ?e"
  proof (rule f32_exponent_eqI)
    show "- 126 \<le> ?e" using e126 by simp
    have "2 powr of_int ?e = 2 ^ 23 * ?u" by (rule powr_exp_ulp)
    then show "2 powr of_int ?e \<le> \<bar>z\<bar>" using lowz zpos by linarith
    have "x < 2 powr of_int (?e + 1)" using f32_exponent_upper [of x] xpos by simp
    then show "\<bar>z\<bar> < 2 powr of_int (?e + 1)" using hi zpos by linarith
  qed
  then have uz: "f32_ulp z = ?u" by (simp add: f32_ulp_def)
  have q: "x / ?u = of_int n" by (subst xn) simp
  have "of_int n - 1 / 2 < z / ?u"
    using lo by (simp add: pos_less_divide_eq)
  moreover have "z / ?u < of_int n + 1 / 2"
  proof -
    have "z / ?u < x / ?u" using hi by (simp add: divide_strict_right_mono)
    then show ?thesis using q by simp
  qed
  ultimately have "round_even (z / ?u) = n" by (rule round_even_near)
  then have "fl32 z = of_int n * ?u" using zpos by (simp add: fl32_def uz)
  then show ?thesis using xn by simp
qed
lemma int_bounds:
  assumes "2 ^ 23 \<le> real_of_int n" and "real_of_int n < 2 ^ 24" and "real_of_int n \<noteq> 2 ^ 23"
  shows "2 ^ 23 + 1 \<le> real_of_int n" and "real_of_int n \<le> 2 ^ 24 - 1"
proof -
  have a: "8388608 \<le> n" using assms(1) by simp
  have b: "n < 16777216" using assms(2) by simp
  have c: "n \<noteq> 8388608" using assms(3) by auto
  from a c have "8388609 \<le> n" by linarith
  then have "8388609 \<le> real_of_int n" by simp
  then show "2 ^ 23 + 1 \<le> real_of_int n" by simp
  from b have "n \<le> 16777215" by linarith
  then have "real_of_int n \<le> 16777215" by simp
  then show "real_of_int n \<le> 2 ^ 24 - 1" by simp
qed

lemma fl32_sqrt_square:
  assumes rep: "fl32 x = x" and big: "2 powr (- 63) \<le> x"
  shows "x \<le> fl32 (sqrt (fl32 (x * x)))"
proof -
  have xpos: "0 < x" using big powr_gt_zero [of 2 "- 63"] by linarith
  let ?u = "f32_ulp x" and ?e = "f32_exponent x"
  have e63: "- 63 \<le> ?e"
  proof -
    have "f32_exponent (2 powr (- 63)) = - 63"
      by (rule f32_exponent_eqI) simp_all
    moreover have "f32_exponent (2 powr (- 63)) \<le> ?e"
      using big xpos by (intro f32_exponent_mono) simp_all
    ultimately show ?thesis by simp
  qed
  then have e126: "- 126 < ?e" by simp
  define n where "n = round_even (x / ?u)"
  have xn: "x = of_int n * ?u" using rep xpos by (simp add: fl32_def n_def)
  have q: "x / ?u = of_int n" by (subst xn) simp
  have n23: "2 ^ 23 \<le> real_of_int n"
    using quotient_lower [of x] xpos e126 q by simp
  have n24: "real_of_int n < 2 ^ 24"
    using quotient_upper [of x] xpos q by simp
  show ?thesis
  proof (cases "real_of_int n = 2 ^ 23")
    case True
    have "x = 2 ^ 23 * ?u" by (subst xn) (simp add: True)
    then have x2: "x = 2 powr of_int ?e" by (simp only: powr_exp_ulp)
    have "fl32 (x * x) = x * x"
      by (subst (1 2 3 4) x2) (rule fl32_power_of_two_square [OF e63])
    then have "sqrt (fl32 (x * x)) = x" using xpos by simp
    then show ?thesis using rep by simp
  next
    case False
    note nb = int_bounds [OF n23 n24 False]
    have ylow: "2 powr (- 126) \<le> x * x"
    proof -
      have "(2::real) powr (- 126) = 2 powr (- 63) * 2 powr (- 63)"
        by (simp flip: powr_add)
      also have "\<dots> \<le> x * x" using big xpos by (intro mult_mono) simp_all
      finally show ?thesis .
    qed
    have c_low: "x * x * (1 - 1 / 2 ^ 24) \<le> fl32 (x * x)"
      by (rule fl32_rel_lower [OF ylow])
    let ?mid = "(real_of_int n - 1 / 2) * ?u"
    have midpos: "0 \<le> ?mid" using n23 by simp
    have "(real_of_int n - 1 / 2)\<^sup>2 < (real_of_int n)\<^sup>2 * (1 - 1 / 2 ^ 24)"
      using n23 nb(2) by (rule square_mid_less)
    then have "(real_of_int n - 1 / 2)\<^sup>2 * ?u\<^sup>2 < (real_of_int n)\<^sup>2 * (1 - 1 / 2 ^ 24) * ?u\<^sup>2"
      by (intro mult_strict_right_mono) simp_all
    moreover have "?mid\<^sup>2 = (real_of_int n - 1 / 2)\<^sup>2 * ?u\<^sup>2"
      by (simp only: power_mult_distrib)
    moreover have "x * x * (1 - 1 / 2 ^ 24) = (real_of_int n)\<^sup>2 * (1 - 1 / 2 ^ 24) * ?u\<^sup>2"
    proof -
      have "x * x = (real_of_int n)\<^sup>2 * ?u\<^sup>2"
        by (subst (1 2) xn) (simp only: power2_eq_square mult_ac)
      then show ?thesis by (simp only: mult_ac)
    qed
    ultimately have "?mid\<^sup>2 < fl32 (x * x)" using c_low by linarith
    then have mid_lt: "?mid < sqrt (fl32 (x * x))" by (rule real_less_rsqrt)
    show ?thesis
    proof (cases "x \<le> sqrt (fl32 (x * x))")
      case True
      then have "fl32 x \<le> fl32 (sqrt (fl32 (x * x)))" by (rule fl32_mono)
      then show ?thesis using rep by simp
    next
      case F2: False
      then have zx: "sqrt (fl32 (x * x)) < x" by simp
      have "fl32 (sqrt (fl32 (x * x))) = x"
        by (rule fl32_round_up [OF xpos xn nb(1) mid_lt zx e126])
      then show ?thesis by simp
    qed
  qed
qed

section \<open>The polar angle\<close>

lemma f32_ge_simps [simp]:
  "f32_ge (F32 a) c \<longleftrightarrow> c \<le> a" "f32_ge PInf32 c" "\<not> f32_ge NInf32 c" "\<not> f32_ge NaN32 c"
  by (simp_all add: f32_ge_def)

lemma f32_ge_trans: "f32_ge v c \<Longrightarrow> c' \<le> c \<Longrightarrow> f32_ge v c'"
  by (cases v) simp_all

lemma f32_round_ge:
  assumes "0 \<le> c" and "c \<le> fl32 w"
  shows "f32_ge (f32_round w) c"
proof -
  have "(0::real) < 2 ^ 128" by simp
  then have "\<not> fl32 w \<le> - (2 ^ 128)" using assms by linarith
  then show ?thesis using assms by (simp add: f32_round_def)
qed

lemma f32_mul_square_ge: "f32_ge (f32_mul p p) (fl32 (p * p))"
  unfolding f32_mul_def by (rule f32_round_ge) (simp_all add: fl32_nonneg)

lemma f32_add_ge_left:
  assumes "f32_ge a c" and "f32_ge b 0" and "0 \<le> c" and "fl32 c = c"
  shows "f32_ge (f32_add a b) c"
proof (cases a)
  case (F32 x)
  show ?thesis
  proof (cases b)
    case (F32 y)
    have "c \<le> x + y" using assms(1,2) \<open>a = F32 x\<close> F32 by simp
    then have "fl32 c \<le> fl32 (x + y)" by (rule fl32_mono)
    then have "f32_ge (f32_round (x + y)) c" using assms(3,4) by (intro f32_round_ge) simp_all
    then show ?thesis using \<open>a = F32 x\<close> F32 by simp
  qed (use assms \<open>a = F32 x\<close> in simp_all)
next
  case PInf32
  then show ?thesis using assms(2) by (cases b) simp_all
qed (use assms in simp_all)

lemma f32_add_ge_right:
  assumes "f32_ge a 0" and "f32_ge b c" and "0 \<le> c" and "fl32 c = c"
  shows "f32_ge (f32_add a b) c"
proof (cases a)
  case (F32 x)
  show ?thesis
  proof (cases b)
    case (F32 y)
    have "c \<le> x + y" using assms(1,2) \<open>a = F32 x\<close> F32 by simp
    then have "fl32 c \<le> fl32 (x + y)" by (rule fl32_mono)
    then have "f32_ge (f32_round (x + y)) c" using assms(3,4) by (intro f32_round_ge) simp_all
    then show ?thesis using \<open>a = F32 x\<close> F32 by simp
  qed (use assms \<open>a = F32 x\<close> in simp_all)
next
  case PInf32
  then show ?thesis using assms(2) by (cases b) simp_all
qed (use assms in simp_all)

lemma f32_sqrt_ge:
  assumes "f32_ge v c" and "0 \<le> c"
  shows "f32_ge (f32_sqrt v) (fl32 (sqrt c))"
proof (cases v)
  case (F32 a)
  then have ca: "c \<le> a" using assms(1) by simp
  then have "sqrt c \<le> sqrt a" by simp
  then have "fl32 (sqrt c) \<le> fl32 (sqrt a)" by (rule fl32_mono)
  moreover have "0 \<le> fl32 (sqrt c)" using assms(2) by (intro fl32_nonneg) simp
  ultimately have "f32_ge (f32_round (sqrt a)) (fl32 (sqrt c))" by (intro f32_round_ge)
  then show ?thesis using F32 ca assms(2) by simp
qed (use assms in simp_all)

text \<open>The sum of the three squares dominates each rounded square.\<close>

lemma sum_squares_ge:
  "f32_ge (f32_add (f32_add (f32_mul px px) (f32_mul py py)) (f32_mul pz pz)) (fl32 (px * px))"
  "f32_ge (f32_add (f32_add (f32_mul px px) (f32_mul py py)) (f32_mul pz pz)) (fl32 (py * py))"
  "f32_ge (f32_add (f32_add (f32_mul px px) (f32_mul py py)) (f32_mul pz pz)) (fl32 (pz * pz))"
proof -
  have n: "0 \<le> fl32 (p * p)" for p by (intro fl32_nonneg) simp
  have z: "f32_ge (f32_mul p p) 0" for p
    using f32_ge_trans [OF f32_mul_square_ge n] .
  have x1: "f32_ge (f32_add (f32_mul px px) (f32_mul py py)) (fl32 (px * px))"
    by (rule f32_add_ge_left [OF f32_mul_square_ge z n fl32_idem])
  have y1: "f32_ge (f32_add (f32_mul px px) (f32_mul py py)) (fl32 (py * py))"
    by (rule f32_add_ge_right [OF z f32_mul_square_ge n fl32_idem])
  have s0: "f32_ge (f32_add (f32_mul px px) (f32_mul py py)) 0"
    using f32_ge_trans [OF x1 n] .
  show "f32_ge (f32_add (f32_add (f32_mul px px) (f32_mul py py)) (f32_mul pz pz)) (fl32 (px * px))"
    by (rule f32_add_ge_left [OF x1 z n fl32_idem])
  show "f32_ge (f32_add (f32_add (f32_mul px px) (f32_mul py py)) (f32_mul pz pz)) (fl32 (py * py))"
    by (rule f32_add_ge_left [OF y1 z n fl32_idem])
  show "f32_ge (f32_add (f32_add (f32_mul px px) (f32_mul py py)) (f32_mul pz pz)) (fl32 (pz * pz))"
    by (rule f32_add_ge_right [OF s0 f32_mul_square_ge n fl32_idem])
qed

lemma fl32_1 [simp]: "fl32 1 = 1"
proof -
  have "f32_exponent 1 = 0" by (rule f32_exponent_eqI) simp_all
  then have "f32_ulp 1 = 1 / 2 ^ 23" by (simp add: f32_ulp_eq)
  then have "1 / f32_ulp 1 = of_int (2 ^ 23)" by (intro quotient_23) simp_all
  then show ?thesis by (rule fl32_exact)
qed

lemma fl32_abs_le_1:
  assumes "\<bar>w\<bar> \<le> 1"
  shows "- 1 \<le> fl32 w" and "fl32 w \<le> 1"
proof -
  have "fl32 (- 1) \<le> fl32 w" using assms by (intro fl32_mono) linarith
  then show "- 1 \<le> fl32 w" by (simp add: fl32_minus)
  have "fl32 w \<le> fl32 1" using assms by (intro fl32_mono) linarith
  then show "fl32 w \<le> 1" by simp
qed

lemma f32_round_small:
  assumes "\<bar>w\<bar> \<le> 1"
  shows "f32_round w = F32 (fl32 w)"
proof -
  have "(1::real) < 2 ^ 128" by simp
  then show ?thesis
    using fl32_abs_le_1 [OF assms] by (simp add: f32_round_def)
qed

lemma f32_round_0 [simp]: "f32_round 0 = F32 0"
  by (simp add: f32_round_def)

lemma square_tiny:
  assumes "\<bar>p\<bar> \<le> 1 / 2 ^ 75"
  shows "f32_mul p p = F32 0"
proof -
  have "\<bar>p\<bar> * \<bar>p\<bar> \<le> (1 / 2 ^ 75) * (1 / 2 ^ 75)"
    using assms by (intro mult_mono) simp_all
  then have "\<bar>p * p\<bar> \<le> 1 / 2 ^ 150" by (simp add: abs_mult)
  also have "\<dots> = 2 powr (- 150)" by (simp add: powr_minus)
  finally have "fl32 (p * p) = 0" by (simp only: fl32_eq_0_iff)
  then show ?thesis by (simp add: f32_mul_def f32_round_def)
qed

lemma square_not_tiny:
  assumes "1 / 2 ^ 75 < \<bar>p\<bar>"
  shows "2 powr (- 149) \<le> fl32 (p * p)"
proof -
  have "(1 / 2 ^ 75) * (1 / 2 ^ 75) < \<bar>p\<bar> * \<bar>p\<bar>"
    using assms by (intro mult_strict_mono) simp_all
  then have "1 / 2 ^ 150 < \<bar>p * p\<bar>" by (simp add: abs_mult)
  moreover have "(1::real) / 2 ^ 150 = 2 powr (- 150)" by (simp add: powr_minus)
  ultimately have "fl32 (p * p) \<noteq> 0" by (simp only: fl32_eq_0_iff)
  moreover have "0 \<le> fl32 (p * p)" by (intro fl32_nonneg) simp
  ultimately have "0 < fl32 (p * p)" by simp
  then show ?thesis by (rule fl32_pos_ge_min)
qed

lemma fl32_sqrt_min_pos: "0 < fl32 (sqrt (2 powr (- 149)))"
proof -
  have "(2 powr (- 75))\<^sup>2 = (2::real) powr (- 150)"
    by (simp add: power2_eq_square flip: powr_add)
  also have "\<dots> \<le> 2 powr (- 149)" by simp
  finally have "2 powr (- 75) \<le> sqrt (2 powr (- 149))"
    by (rule real_le_rsqrt)
  moreover have "(2::real) powr (- 150) < 2 powr (- 75)" by simp
  ultimately have "\<not> \<bar>sqrt (2 powr (- 149))\<bar> \<le> 2 powr (- 150)" by linarith
  then have "fl32 (sqrt (2 powr (- 149))) \<noteq> 0" by (simp only: fl32_eq_0_iff) simp
  moreover have "0 \<le> fl32 (sqrt (2 powr (- 149)))" by (intro fl32_nonneg) simp
  ultimately show ?thesis by simp
qed

lemma divisor_nonzero:
  assumes "f32_ge s (fl32 (p * p))" and "1 / 2 ^ 75 < \<bar>p\<bar>"
  shows "f32_sqrt s \<noteq> F32 0"
proof -
  have "f32_ge s (2 powr (- 149))"
    using f32_ge_trans [OF assms(1) square_not_tiny [OF assms(2)]] .
  then have "f32_ge (f32_sqrt s) (fl32 (sqrt (2 powr (- 149))))"
    by (rule f32_sqrt_ge) simp
  then show ?thesis using fl32_sqrt_min_pos by (cases "f32_sqrt s") auto
qed

lemma ThetaFunc_divisor_zero_iff:
  "ThetaFunc_divisor px py pz = F32 0 \<longleftrightarrow>
     \<bar>px\<bar> \<le> 1 / 2 ^ 75 \<and> \<bar>py\<bar> \<le> 1 / 2 ^ 75 \<and> \<bar>pz\<bar> \<le> 1 / 2 ^ 75"
proof
  assume z: "ThetaFunc_divisor px py pz = F32 0"
  show "\<bar>px\<bar> \<le> 1 / 2 ^ 75 \<and> \<bar>py\<bar> \<le> 1 / 2 ^ 75 \<and> \<bar>pz\<bar> \<le> 1 / 2 ^ 75"
  proof (rule ccontr)
    assume "\<not> ?thesis"
    then consider "1 / 2 ^ 75 < \<bar>px\<bar>" | "1 / 2 ^ 75 < \<bar>py\<bar>" | "1 / 2 ^ 75 < \<bar>pz\<bar>"
      by linarith
    then have "ThetaFunc_divisor px py pz \<noteq> F32 0"
      unfolding ThetaFunc_divisor_def
      by cases (rule divisor_nonzero [OF sum_squares_ge(1)], assumption,
          rule divisor_nonzero [OF sum_squares_ge(2)], assumption,
          rule divisor_nonzero [OF sum_squares_ge(3)], assumption)
    with z show False by simp
  qed
next
  assume "\<bar>px\<bar> \<le> 1 / 2 ^ 75 \<and> \<bar>py\<bar> \<le> 1 / 2 ^ 75 \<and> \<bar>pz\<bar> \<le> 1 / 2 ^ 75"
  then show "ThetaFunc_divisor px py pz = F32 0"
    by (simp add: ThetaFunc_divisor_def square_tiny)
qed

lemma ThetaFunc_divisor_zero_NaN:
  assumes "ThetaFunc_divisor px py pz = F32 0"
  shows "ThetaFunc px py pz = NaN"
  using assms by (simp add: ThetaFunc_def ThetaFunc_arg_def)

lemma ThetaFunc_divisor_ge:
  assumes rep: "fl32 pz = pz" and big: "1 / 2 ^ 63 \<le> \<bar>pz\<bar>"
  shows "f32_ge (ThetaFunc_divisor px py pz) \<bar>pz\<bar>"
proof -
  have r: "fl32 \<bar>pz\<bar> = \<bar>pz\<bar>"
    using rep by (cases "0 \<le> pz") (simp_all add: fl32_minus)
  have "(1::real) / 2 ^ 63 = 2 powr (- 63)" by (simp add: powr_minus)
  then have b: "2 powr (- 63) \<le> \<bar>pz\<bar>" using big by simp
  have k: "\<bar>pz\<bar> \<le> fl32 (sqrt (fl32 (\<bar>pz\<bar> * \<bar>pz\<bar>)))"
    by (rule fl32_sqrt_square [OF r b])
  have sq: "\<bar>pz\<bar> * \<bar>pz\<bar> = pz * pz" by simp
  have "f32_ge (ThetaFunc_divisor px py pz) (fl32 (sqrt (fl32 (pz * pz))))"
    unfolding ThetaFunc_divisor_def
    by (rule f32_sqrt_ge [OF sum_squares_ge(3)]) (simp add: fl32_nonneg)
  then show ?thesis using k unfolding sq by (rule f32_ge_trans)
qed

lemma ThetaFunc_arg_bounded:
  assumes d: "f32_ge (ThetaFunc_divisor px py pz) \<bar>pz\<bar>" and nz: "ThetaFunc_divisor px py pz \<noteq> F32 0"
  shows "\<exists>q. ThetaFunc_arg px py pz = F32 q \<and> - 1 \<le> q \<and> q \<le> 1
    \<and> ThetaFunc px py pz = Finite (fl32 (arccos q))"
proof (cases "ThetaFunc_divisor px py pz")
  case (F32 dv)
  then have ge: "\<bar>pz\<bar> \<le> dv" using d by simp
  have dz: "dv \<noteq> 0" using nz F32 by simp
  have dpos: "0 < dv" using ge dz by linarith
  have "\<bar>pz / dv\<bar> \<le> 1" using ge dpos by simp
  note b = fl32_abs_le_1 [OF this] f32_round_small [OF this]
  have "ThetaFunc_arg px py pz = F32 (fl32 (pz / dv))"
    using F32 dz b(3) by (simp add: ThetaFunc_arg_def)
  then show ?thesis using b(1,2) by (simp add: ThetaFunc_def)
next
  case PInf32
  then have "ThetaFunc_arg px py pz = F32 0" by (simp add: ThetaFunc_arg_def)
  then show ?thesis by (simp add: ThetaFunc_def)
qed (use d in simp_all)

lemma is_f32I:
  assumes "- 126 \<le> k" and "2 powr of_int k \<le> \<bar>x\<bar>" and "\<bar>x\<bar> < 2 powr of_int (k + 1)"
    and "x / (2 powr of_int k / 2 ^ 23) = of_int n" and "\<bar>x\<bar> < 2 ^ 128"
  shows "is_f32 x"
proof -
  have "f32_exponent x = k" by (rule f32_exponent_eqI [OF assms(1,2,3)])
  then have u: "f32_ulp x = 2 powr of_int k / 2 ^ 23" by (simp only: f32_ulp_eq)
  have "x / f32_ulp x = of_int n" unfolding u by (rule assms(4))
  then have "fl32 x = x" by (rule fl32_exact)
  then show ?thesis using assms(5) by (simp add: is_f32_def)
qed

lemma is_f32_minus: "is_f32 (- x) \<longleftrightarrow> is_f32 x"
  by (auto simp: is_f32_def fl32_minus)

lemma is_f32_999: "is_f32 999"
  by (rule is_f32I [of 9 _ "999 * 2 ^ 14"]) (simp_all add: powr_minus)

lemma is_f32_3: "is_f32 3"
  by (rule is_f32I [of 1 _ "3 * 2 ^ 22"]) (simp_all add: powr_minus)

lemma is_f32_tiny: "is_f32 (1 / 2 ^ 100)"
  by (rule is_f32I [of "- 100" _ "2 ^ 23"]) (simp_all add: powr_minus)

lemma is_f32_small: "is_f32 (3 / 2 ^ 75)"
  by (rule is_f32I [of "- 74" _ "3 * 2 ^ 22"]) (simp_all add: powr_minus)

lemma is_f32_23: "is_f32 (23 / 2 ^ 78)"
  by (rule is_f32I [of "- 74" _ "23 * 2 ^ 19"]) (simp_all add: powr_minus)

lemma is_f32_33: "is_f32 (33 / 32)"
  by (rule is_f32I [of 0 _ "33 * 2 ^ 18"]) (simp_all add: powr_minus)

lemma ThetaFunc_pz_zero:
  assumes "1 / 2 ^ 75 < \<bar>px\<bar> \<or> 1 / 2 ^ 75 < \<bar>py\<bar>"
  shows "ThetaFunc px py 0 = Finite (fl32 (arccos 0))"
proof -
  have nz: "ThetaFunc_divisor px py 0 \<noteq> F32 0"
    using assms by (simp add: ThetaFunc_divisor_zero_iff) linarith
  have "0 \<le> fl32 (sqrt (fl32 (0 * 0)))" by simp
  have "f32_ge (ThetaFunc_divisor px py 0) (fl32 (sqrt (fl32 (0 * 0))))"
    unfolding ThetaFunc_divisor_def
    by (rule f32_sqrt_ge [OF sum_squares_ge(3)]) simp
  then have "f32_ge (ThetaFunc_divisor px py 0) \<bar>0\<bar>" by simp
  from ThetaFunc_arg_bounded [OF this nz]
  obtain q where q: "ThetaFunc_arg px py 0 = F32 q"
    and t: "ThetaFunc px py 0 = Finite (fl32 (arccos q))" by blast
  have "q = 0"
    using q nz by (cases "ThetaFunc_divisor px py 0") (auto simp: ThetaFunc_arg_def split: if_splits)
  then show ?thesis using t by simp
qed

lemma f32_acos_round_NaN:
  assumes "1 < fl32 w"
  shows "f32_acos (f32_round w) = NaN"
  using assms by (simp add: f32_round_def)




section \<open>The invariant mass of the kaon pair\<close>

lemma dot3_le_sqrt_mult:
  fixes x1 y1 z1 x2 y2 z2 m :: real
  shows "x1 * x2 + y1 * y2 + z1 * z2
     \<le> sqrt (x1 * x1 + y1 * y1 + z1 * z1 + m * m) * sqrt (x2 * x2 + y2 * y2 + z2 * z2 + m * m)"
proof -
  let ?a = "x1 * x1 + y1 * y1 + z1 * z1" and ?b = "x2 * x2 + y2 * y2 + z2 * z2"
  let ?d = "x1 * x2 + y1 * y2 + z1 * z2"
  have lagrange: "?a * ?b - ?d\<^sup>2 =
      (x1 * y2 - x2 * y1)\<^sup>2 + (x1 * z2 - x2 * z1)\<^sup>2 + (y1 * z2 - y2 * z1)\<^sup>2"
    by (simp add: power2_eq_square algebra_simps)
  have "0 \<le> ?a * ?b - ?d\<^sup>2"
    unfolding lagrange by simp
  then have cs: "?d\<^sup>2 \<le> ?a * ?b" by simp
  have a0: "0 \<le> ?a" and b0: "0 \<le> ?b" by simp_all
  have "?a * ?b \<le> (?a + m * m) * (?b + m * m)"
    by (rule mult_mono) (use a0 b0 in simp_all)
  with cs have "?d\<^sup>2 \<le> (?a + m * m) * (?b + m * m)" by linarith
  then have "sqrt (?d\<^sup>2) \<le> sqrt ((?a + m * m) * (?b + m * m))"
    by (rule real_sqrt_le_mono)
  then have "\<bar>?d\<bar> \<le> sqrt (?a + m * m) * sqrt (?b + m * m)"
    by (simp add: real_sqrt_mult)
  then show ?thesis by linarith
qed

lemma invMass_arg_expand:
  "invMass_KpKm_arg px1 py1 pz1 px2 py2 pz2 =
     2 * (mK * mK) +
     2 * (sqrt (px1 * px1 + py1 * py1 + pz1 * pz1 + mK * mK)
            * sqrt (px2 * px2 + py2 * py2 + pz2 * pz2 + mK * mK)
          - (px1 * px2 + py1 * py2 + pz1 * pz2))"
proof -
  let ?A = "px1 * px1 + py1 * py1 + pz1 * pz1 + mK * mK"
  let ?B = "px2 * px2 + py2 * py2 + pz2 * pz2 + mK * mK"
  have A: "sqrt ?A * sqrt ?A = ?A" by simp
  have B: "sqrt ?B * sqrt ?B = ?B" by simp
  have "(sqrt ?A + sqrt ?B) * (sqrt ?A + sqrt ?B) = ?A + ?B + 2 * (sqrt ?A * sqrt ?B)"
    using A B by (simp add: algebra_simps)
  then show ?thesis
    by (simp add: invMass_KpKm_arg_def Let_def algebra_simps)
qed

lemma lin_nonneg: "0 \<le> (m::real) \<Longrightarrow> d \<le> s \<Longrightarrow> 0 \<le> 2 * m + 2 * (s - d)"
  by simp

text \<open>
  \<^bold>\<open>C9.\<close> For all real kaon momentum components, sentinels included, the quantity under
  the square root of \<open>invMass_KpKm\<close> is non-negative, so the column is the finite number
  \<open>sqrt ((E\<^sub>1 + E\<^sub>2)\<^sup>2 - |p\<^sub>1 + p\<^sub>2|\<^sup>2)\<close>; each kaon energy is at least the magnitude of its
  momentum.
\<close>

theorem invMass_KpKm_arg_nonneg:
  "0 \<le> invMass_KpKm_arg px1 py1 pz1 px2 py2 pz2
   \<and> invMass_KpKm px1 py1 pz1 px2 py2 pz2 = Finite (sqrt (invMass_KpKm_arg px1 py1 pz1 px2 py2 pz2))
   \<and> MomentumFunc px1 py1 pz1 \<le> sqrt (px1 * px1 + py1 * py1 + pz1 * pz1 + mK * mK)
   \<and> MomentumFunc px2 py2 pz2 \<le> sqrt (px2 * px2 + py2 * py2 + pz2 * pz2 + mK * mK)
   \<and> 0 \<le> invMass_KpKm_arg (- 999) (- 999) (- 999) (- 999) (- 999) (- 999)
   \<and> invMass_KpKm (- 999) (- 999) (- 999) (- 999) (- 999) (- 999) \<noteq> NaN"
proof -
  have n: "0 \<le> invMass_KpKm_arg x1 y1 z1 x2 y2 z2" for x1 y1 z1 x2 y2 z2
  proof -
    have "0 \<le> mK * mK" by simp
    moreover have "x1 * x2 + y1 * y2 + z1 * z2
        \<le> sqrt (x1 * x1 + y1 * y1 + z1 * z1 + mK * mK)
          * sqrt (x2 * x2 + y2 * y2 + z2 * z2 + mK * mK)"
      by (rule dot3_le_sqrt_mult)
    ultimately show ?thesis
      unfolding invMass_arg_expand by (rule lin_nonneg)
  qed
  have f: "invMass_KpKm x1 y1 z1 x2 y2 z2 = Finite (sqrt (invMass_KpKm_arg x1 y1 z1 x2 y2 z2))"
    for x1 y1 z1 x2 y2 z2
    using n [of x1 y1 z1 x2 y2 z2] by (simp add: invMass_KpKm_def std_sqrt_def)
  have e: "MomentumFunc x y z \<le> sqrt (x * x + y * y + z * z + mK * mK)" for x y z
    unfolding MomentumFunc_def by (rule real_sqrt_le_mono) simp
  show ?thesis
    using n f e by simp
qed

section \<open>Reconstruction of the missing kaon\<close>

text \<open>
  \<^bold>\<open>C1.\<close> In missing-\<open>K\<^sup>-\<close> mode the three reconstructed components are the momentum
  components of beam + target - electron - proton - \<open>K\<^sup>+\<close>, with beam \<open>(0, 0, Eb, Eb)\<close>,
  target \<open>(0, 0, 0, kMp)\<close> and on-shell energies for the detected particles. Hence, when
  the three detected four-vectors and a four-vector \<open>k\<close> sum to beam + target, the
  reconstruction returns the momentum components of \<open>k\<close>. The missing-\<open>K\<^sup>+\<close> mode is the
  same statement with the detected \<open>K\<^sup>-\<close> in the place of the \<open>K\<^sup>+\<close>.
\<close>

theorem missing_kaon_conservation:
  "kMinus_miss_px Eb epx epy epz ppx ppy ppz kx ky kz = - epx - ppx - kx
   \<and> kMinus_miss_py Eb epx epy epz ppx ppy ppz kx ky kz = - epy - ppy - ky
   \<and> kMinus_miss_pz Eb epx epy epz ppx ppy ppz kx ky kz = Eb - epz - ppz - kz
   \<and> kMinus_miss Eb epx epy epz ppx ppy ppz kx ky kz =
       lv_sub (lv_sub (lv_sub (lv_add (lv 0 0 Eb Eb) (lv 0 0 0 kMp))
         (on_shell epx epy epz kMe)) (on_shell ppx ppy ppz kMp)) (on_shell kx ky kz kMK)
   \<and> (lv_add (lv_add (lv_add (on_shell epx epy epz kMe) (on_shell ppx ppy ppz kMp))
          (on_shell kx ky kz kMK)) k = lv_add (lv 0 0 Eb Eb) (lv 0 0 0 kMp) \<longrightarrow>
        kMinus_miss_px Eb epx epy epz ppx ppy ppz kx ky kz = Px k
        \<and> kMinus_miss_py Eb epx epy epz ppx ppy ppz kx ky kz = Py k
        \<and> kMinus_miss_pz Eb epx epy epz ppx ppy ppz kx ky kz = Pz k)
   \<and> kPlus_miss_px Eb epx epy epz ppx ppy ppz kx ky kz = - epx - ppx - kx
   \<and> kPlus_miss_py Eb epx epy epz ppx ppy ppz kx ky kz = - epy - ppy - ky
   \<and> kPlus_miss_pz Eb epx epy epz ppx ppy ppz kx ky kz = Eb - epz - ppz - kz
   \<and> kPlus_miss Eb epx epy epz ppx ppy ppz kx ky kz =
       lv_sub (lv_sub (lv_sub (lv_add (lv 0 0 Eb Eb) (lv 0 0 0 kMp))
         (on_shell epx epy epz kMe)) (on_shell ppx ppy ppz kMp)) (on_shell kx ky kz kMK)
   \<and> (lv_add (lv_add (lv_add (on_shell epx epy epz kMe) (on_shell ppx ppy ppz kMp))
          (on_shell kx ky kz kMK)) k = lv_add (lv 0 0 Eb Eb) (lv 0 0 0 kMp) \<longrightarrow>
        kPlus_miss_px Eb epx epy epz ppx ppy ppz kx ky kz = Px k
        \<and> kPlus_miss_py Eb epx epy epz ppx ppy ppz kx ky kz = Py k
        \<and> kPlus_miss_pz Eb epx epy epz ppx ppy ppz kx ky kz = Pz k)"
proof -
  have m: "kMinus_miss Eb epx epy epz ppx ppy ppz kx ky kz =
       lv_sub (lv_sub (lv_sub (lv_add (lv 0 0 Eb Eb) (lv 0 0 0 kMp))
         (on_shell epx epy epz kMe)) (on_shell ppx ppy ppz kMp)) (on_shell kx ky kz kMK)"
    by (simp add: kMinus_miss_def on_shell_def Let_def power2_eq_square)
  have p: "kPlus_miss Eb epx epy epz ppx ppy ppz kx ky kz =
       lv_sub (lv_sub (lv_sub (lv_add (lv 0 0 Eb Eb) (lv 0 0 0 kMp))
         (on_shell epx epy epz kMe)) (on_shell ppx ppy ppz kMp)) (on_shell kx ky kz kMK)"
    by (simp add: kPlus_miss_def on_shell_def Let_def power2_eq_square)
  have mx: "kMinus_miss_px Eb epx epy epz ppx ppy ppz kx ky kz = - epx - ppx - kx"
    and my: "kMinus_miss_py Eb epx epy epz ppx ppy ppz kx ky kz = - epy - ppy - ky"
    and mz: "kMinus_miss_pz Eb epx epy epz ppx ppy ppz kx ky kz = Eb - epz - ppz - kz"
    by (simp_all add: kMinus_miss_px_def kMinus_miss_py_def kMinus_miss_pz_def m
        lv_def lv_add_def lv_sub_def on_shell_def)
  have px: "kPlus_miss_px Eb epx epy epz ppx ppy ppz kx ky kz = - epx - ppx - kx"
    and py: "kPlus_miss_py Eb epx epy epz ppx ppy ppz kx ky kz = - epy - ppy - ky"
    and pz: "kPlus_miss_pz Eb epx epy epz ppx ppy ppz kx ky kz = Eb - epz - ppz - kz"
    by (simp_all add: kPlus_miss_px_def kPlus_miss_py_def kPlus_miss_pz_def p
        lv_def lv_add_def lv_sub_def on_shell_def)
  have rt: "- epx - ppx - kx = Px k \<and> - epy - ppy - ky = Py k \<and> Eb - epz - ppz - kz = Pz k"
    if h: "lv_add (lv_add (lv_add (on_shell epx epy epz kMe) (on_shell ppx ppy ppz kMp))
          (on_shell kx ky kz kMK)) k = lv_add (lv 0 0 Eb Eb) (lv 0 0 0 kMp)"
  proof -
    from h have "Px (lv_add (lv_add (lv_add (on_shell epx epy epz kMe) (on_shell ppx ppy ppz kMp))
          (on_shell kx ky kz kMK)) k) = Px (lv_add (lv 0 0 Eb Eb) (lv 0 0 0 kMp))"
      and "Py (lv_add (lv_add (lv_add (on_shell epx epy epz kMe) (on_shell ppx ppy ppz kMp))
          (on_shell kx ky kz kMK)) k) = Py (lv_add (lv 0 0 Eb Eb) (lv 0 0 0 kMp))"
      and "Pz (lv_add (lv_add (lv_add (on_shell epx epy epz kMe) (on_shell ppx ppy ppz kMp))
          (on_shell kx ky kz kMK)) k) = Pz (lv_add (lv 0 0 Eb Eb) (lv 0 0 0 kMp))"
      by simp_all
    then show ?thesis
      by (simp add: lv_def lv_add_def on_shell_def)
  qed
  show ?thesis
    using m p mx my mz px py pz rt by simp
qed

theorem missing_kaon_conservation_witness:
  "lv_add (lv_add (lv_add (on_shell 0.1 0.2 9 kMe) (on_shell 0.3 (- 0.1) 1 kMp))
          (on_shell 0.05 0.05 0.5 kMK)) k_ex = lv_add (lv 0 0 10.6 10.6) (lv 0 0 0 kMp)
   \<and> kMinus_miss_px 10.6 0.1 0.2 9 0.3 (- 0.1) 1 0.05 0.05 0.5 = - 0.45
   \<and> kMinus_miss_py 10.6 0.1 0.2 9 0.3 (- 0.1) 1 0.05 0.05 0.5 = - 0.15
   \<and> kMinus_miss_pz 10.6 0.1 0.2 9 0.3 (- 0.1) 1 0.05 0.05 0.5 = 0.1
   \<and> kPlus_miss_px 10.6 0.1 0.2 9 0.3 (- 0.1) 1 0.05 0.05 0.5 = Px k_ex
   \<and> kPlus_miss_py 10.6 0.1 0.2 9 0.3 (- 0.1) 1 0.05 0.05 0.5 = Py k_ex
   \<and> kPlus_miss_pz 10.6 0.1 0.2 9 0.3 (- 0.1) 1 0.05 0.05 0.5 = Pz k_ex"
proof -
  have h: "lv_add (lv_add (lv_add (on_shell 0.1 0.2 9 kMe) (on_shell 0.3 (- 0.1) 1 kMp))
          (on_shell 0.05 0.05 0.5 kMK)) k_ex = lv_add (lv 0 0 10.6 10.6) (lv 0 0 0 kMp)"
    by (simp add: k_ex_def lv_def lv_add_def on_shell_def)
  have v: "Px k_ex = - 0.45" "Py k_ex = - 0.15" "Pz k_ex = 0.1"
    by (simp_all add: k_ex_def lv_def)
  show ?thesis
    using h v missing_kaon_conservation [of "10.6" "0.1" "0.2" 9 "0.3" "- 0.1" 1 "0.05" "0.05" "0.5" k_ex]
    by simp
qed

section \<open>The square-root alias of the missing-\<open>K\<^sup>+\<close> mode\<close>

text \<open>
  \<^bold>\<open>C4\<close> (as amended). For every value \<open>v\<close> of the observable \<open>Mx2_epKm\<close>: if \<open>v\<close> is
  negative or zero the alias \<open>Mx_epKm_forCut\<close> is \<open>-999.0\<close>, and if \<open>v\<close> is positive the
  alias is the square root of \<open>v\<close>.
\<close>

theorem Mx_epKm_forCut_alias:
  "(v \<le> 0 \<longrightarrow> Mx_epKm_forCut (Mx2_epKm_forCut v) = - 999.0)
   \<and> (0 < v \<longrightarrow> Mx_epKm_forCut (Mx2_epKm_forCut v) = sqrt v)"
  by (simp add: Mx_epKm_forCut_def Mx2_epKm_forCut_def)

theorem Mx_epKm_forCut_alias_witness:
  "Mx_epKm_forCut (Mx2_epKm_forCut (- 1)) = - 999.0 \<and> Mx_epKm_forCut (Mx2_epKm_forCut 4) = 2"
proof -
  have "sqrt 4 = sqrt (2\<^sup>2)" by simp
  then have s: "sqrt 4 = 2" by (simp del: real_sqrt_four)
  show ?thesis
    using Mx_epKm_forCut_alias [of "- 1"] Mx_epKm_forCut_alias [of 4] s by simp
qed

text \<open>
  At \<open>v = 0\<close> the guard \<^verbatim>\<open>v > 0\<close> fails: the alias is the sentinel, not \<open>sqrt 0 = 0\<close>.
\<close>

theorem Mx_epKm_forCut_zero_counterexample:
  "0 \<le> Mx2_epKm_forCut 0
   \<and> Mx_epKm_forCut (Mx2_epKm_forCut 0) = - 999.0
   \<and> Mx_epKm_forCut (Mx2_epKm_forCut 0) \<noteq> sqrt (Mx2_epKm_forCut 0)"
  by (simp add: Mx_epKm_forCut_def Mx2_epKm_forCut_def)

section \<open>Particle selection\<close>

subsection \<open>Candidates\<close>

lemma first_candidateD:
  assumes "first_candidate T ev i"
  shows "i < length (REC_Particle_pid ev)" and "REC_Particle_pid ev ! i = T"
    and "REC_Particle_pass ev ! i"
    and "\<And>j. j < i \<Longrightarrow> \<not> (REC_Particle_pid ev ! j = T \<and> REC_Particle_pass ev ! j)"
  using assms by (auto simp: first_candidate_def is_candidate_def list_all_iff)

lemma no_candidateD:
  assumes "no_candidate T ev" and "j < length (REC_Particle_pid ev)"
  shows "\<not> (REC_Particle_pid ev ! j = T \<and> REC_Particle_pass ev ! j)"
  using assms by (auto simp: no_candidate_def is_candidate_def list_all_iff)

lemma candidate_cases: "no_candidate T ev \<or> (\<exists>k. first_candidate T ev k)"
proof (cases "\<exists>k. is_candidate T ev k")
  case False
  then show ?thesis by (simp add: no_candidate_def list_all_iff)
next
  case True
  define k where "k = (LEAST k. is_candidate T ev k)"
  have c: "is_candidate T ev k"
    unfolding k_def using True by (auto intro: LeastI)
  have "\<not> is_candidate T ev j" if "j < k" for j
    using that not_less_Least unfolding k_def by blast
  with c have "first_candidate T ev k"
    by (simp add: first_candidate_def list_all_iff)
  then show ?thesis by blast
qed

subsection \<open>The selection loop\<close>

lemma select_loop_first:
  assumes "length pid \<le> length pass" and "length pid \<le> length px"
    and "i0 \<le> i" and "i < length pid" and "pid ! i = T" and "pass ! i"
    and "\<And>j. i0 \<le> j \<Longrightarrow> j < i \<Longrightarrow> \<not> (pid ! j = T \<and> pass ! j)"
  shows "select_loop T pid px pass i0 = Inr (px ! i)"
  using assms
proof (induction T pid px pass i0 rule: select_loop.induct)
  case (1 T pid px pass i0)
  have lt: "i0 < length pid" using "1.prems" by linarith
  show ?case
  proof (cases "i0 = i")
    case True
    then show ?thesis
      using "1.prems" by (simp add: select_loop.simps [of T pid px pass i] rvec_at_def)
  next
    case False
    then have lt': "Suc i0 \<le> i" using "1.prems"(3) by linarith
    have nm: "\<not> (pid ! i0 = T \<and> pass ! i0)"
      using "1.prems"(7) [of i0] False "1.prems"(3) by simp
    have rest: "\<And>j. Suc i0 \<le> j \<Longrightarrow> j < i \<Longrightarrow> \<not> (pid ! j = T \<and> pass ! j)"
      using "1.prems"(7) by simp
    show ?thesis
    proof (cases "pid ! i0 = T")
      case True
      with nm have np: "\<not> pass ! i0" by simp
      have r: "rvec_at pass i0 = Inr False"
        using lt "1.prems"(1) np by (simp add: rvec_at_def)
      have "select_loop T pid px pass (Suc i0) = Inr (px ! i)"
        using "1.IH"(1) [OF lt True r _ "1.prems"(1,2) lt' "1.prems"(4,5,6) rest] by simp
      then show ?thesis
        using lt True r by (simp add: select_loop.simps [of T pid px pass i0])
    next
      case F2: False
      have "select_loop T pid px pass (Suc i0) = Inr (px ! i)"
        using "1.IH"(2) [OF lt F2 "1.prems"(1,2) lt' "1.prems"(4,5,6) rest] by simp
      then show ?thesis
        using lt F2 by (simp add: select_loop.simps [of T pid px pass i0])
    qed
  qed
qed

lemma select_loop_none:
  assumes "length pid \<le> length pass"
    and "\<And>j. i0 \<le> j \<Longrightarrow> j < length pid \<Longrightarrow> \<not> (pid ! j = T \<and> pass ! j)"
  shows "select_loop T pid px pass i0 = Inr (- 999)"
  using assms
proof (induction T pid px pass i0 rule: select_loop.induct)
  case (1 T pid px pass i0)
  show ?case
  proof (cases "i0 < length pid")
    case False
    then show ?thesis by (simp add: select_loop.simps [of T pid px pass i0])
  next
    case lt: True
    have nm: "\<not> (pid ! i0 = T \<and> pass ! i0)"
      using "1.prems"(2) [of i0] lt by simp
    have rest: "\<And>j. Suc i0 \<le> j \<Longrightarrow> j < length pid \<Longrightarrow> \<not> (pid ! j = T \<and> pass ! j)"
      using "1.prems"(2) by simp
    show ?thesis
    proof (cases "pid ! i0 = T")
      case True
      with nm have np: "\<not> pass ! i0" by simp
      have r: "rvec_at pass i0 = Inr False"
        using lt "1.prems"(1) np by (simp add: rvec_at_def)
      have "select_loop T pid px pass (Suc i0) = Inr (- 999)"
        using "1.IH"(1) [OF lt True r _ "1.prems"(1) rest] by simp
      then show ?thesis
        using lt True r by (simp add: select_loop.simps [of T pid px pass i0])
    next
      case F2: False
      have "select_loop T pid px pass (Suc i0) = Inr (- 999)"
        using "1.IH"(2) [OF lt F2 "1.prems"(1) rest] by simp
      then show ?thesis
        using lt F2 by (simp add: select_loop.simps [of T pid px pass i0])
    qed
  qed
qed

lemma select_loop_total:
  assumes wf: "wf_event ev"
  shows "(first_candidate T ev i \<longrightarrow>
            select_px T ev = Inr (REC_Particle_px ev ! i)
          \<and> select_py T ev = Inr (REC_Particle_py ev ! i)
          \<and> select_pz T ev = Inr (REC_Particle_pz ev ! i))
       \<and> (no_candidate T ev \<longrightarrow>
            select_px T ev = Inr (- 999) \<and> select_py T ev = Inr (- 999)
          \<and> select_pz T ev = Inr (- 999))"
proof -
  have l: "length (REC_Particle_pid ev) \<le> length (REC_Particle_pass ev)"
    "length (REC_Particle_pid ev) \<le> length (REC_Particle_px ev)"
    "length (REC_Particle_pid ev) \<le> length (REC_Particle_py ev)"
    "length (REC_Particle_pid ev) \<le> length (REC_Particle_pz ev)"
    using wf by (simp_all add: wf_event_def)
  have a: "select_loop T (REC_Particle_pid ev) c (REC_Particle_pass ev) 0 = Inr (c ! i)"
    if f: "first_candidate T ev i" and lc: "length (REC_Particle_pid ev) \<le> length c" for c
    using first_candidateD [OF f]
    by (intro select_loop_first [OF l(1) lc]) simp_all
  have b: "select_loop T (REC_Particle_pid ev) c (REC_Particle_pass ev) 0 = Inr (- 999)"
    if n: "no_candidate T ev" for c
    by (rule select_loop_none [OF l(1)]) (use no_candidateD [OF n] in simp)
  show ?thesis
    using a b l by (simp add: select_px_def select_py_def select_pz_def)
qed

lemma select_px_Inr: "wf_event ev \<Longrightarrow> \<exists>v. select_px T ev = Inr v"
  using select_loop_total [of ev T] candidate_cases [of T ev] by blast

lemma select_first:
  assumes wf: "wf_event ev" and f: "first_candidate T ev i"
  shows "select T ev = Inr (momentum_at ev i)"
  using select_loop_total [OF wf, of T i] f
  by (simp add: select_def bind_err_def momentum_at_def)

lemma select_none:
  assumes wf: "wf_event ev" and n: "no_candidate T ev"
  shows "select T ev = Inr NOT_FOUND"
  using select_loop_total [OF wf, of T] n
  by (simp add: select_def bind_err_def NOT_FOUND_def)

text \<open>
  \<^bold>\<open>C2.\<close> For every event and every species id \<open>T\<close>, the selection returns the momentum
  components of the first particle in stored order that has species \<open>T\<close> and passes the
  quality selection, and the sentinel triple \<open>(-999.0, -999.0, -999.0)\<close> when no particle
  matches; one of the two cases always applies. In particular, when exactly two
  quality-passing \<open>K\<^sup>+\<close> candidates \<open>i < j\<close> exist, the selection is particle \<open>i\<close>.
\<close>

theorem select_first_match:
  assumes "wf_event ev"
  shows "(first_candidate T ev i \<longrightarrow> select T ev = Inr (momentum_at ev i))
    \<and> (no_candidate T ev \<longrightarrow> select T ev = Inr NOT_FOUND)
    \<and> (no_candidate T ev \<or> (\<exists>k. first_candidate T ev k))
    \<and> (i < j \<and> is_candidate 321 ev i \<and> is_candidate 321 ev j
         \<and> (\<forall>k. is_candidate 321 ev k \<longrightarrow> k = i \<or> k = j)
       \<longrightarrow> select 321 ev = Inr (momentum_at ev i))"
proof -
  have two: "select 321 ev = Inr (momentum_at ev i)"
    if h: "i < j \<and> is_candidate 321 ev i \<and> is_candidate 321 ev j
         \<and> (\<forall>k. is_candidate 321 ev k \<longrightarrow> k = i \<or> k = j)"
  proof -
    have "\<not> is_candidate 321 ev k" if "k < i" for k
      using h that by auto
    with h have "first_candidate 321 ev i"
      by (simp add: first_candidate_def list_all_iff)
    then show ?thesis by (rule select_first [OF assms])
  qed
  show ?thesis
    using select_first [OF assms] select_none [OF assms] candidate_cases [of T ev] two
    by blast
qed

theorem select_first_match_witness:
  "wf_event ev_two_kp
   \<and> first_candidate 321 ev_two_kp 1
   \<and> {k. is_candidate 321 ev_two_kp k} = {1, 3}
   \<and> select 321 ev_two_kp = Inr (0.05, 0.05, 0.5)
   \<and> no_candidate (- 321) ev_two_kp
   \<and> select (- 321) ev_two_kp = Inr (- 999.0, - 999.0, - 999.0)"
proof -
  have wf: "wf_event ev_two_kp"
    by (simp add: wf_event_def ev_two_kp_def)
  have f: "first_candidate 321 ev_two_kp 1"
    by (simp add: first_candidate_def is_candidate_def ev_two_kp_def)
  have c: "is_candidate 321 ev_two_kp k \<longleftrightarrow> k = 1 \<or> k = 3" for k
  proof -
    have "k < 4 \<longleftrightarrow> k = 0 \<or> k = 1 \<or> k = 2 \<or> k = 3" by linarith
    then show ?thesis
      by (auto simp: is_candidate_def ev_two_kp_def)
  qed
  then have s: "{k. is_candidate 321 ev_two_kp k} = {1, 3}" by auto
  have two: "(1::nat) < 3 \<and> is_candidate 321 ev_two_kp 1 \<and> is_candidate 321 ev_two_kp 3
      \<and> (\<forall>k. is_candidate 321 ev_two_kp k \<longrightarrow> k = 1 \<or> k = 3)"
    using c by simp
  have n: "no_candidate (- 321) ev_two_kp"
    by (simp add: no_candidate_def is_candidate_def ev_two_kp_def)
  have m: "momentum_at ev_two_kp 1 = (0.05, 0.05, 0.5)"
    by (simp add: momentum_at_def ev_two_kp_def)
  have a: "select 321 ev_two_kp = Inr (momentum_at ev_two_kp 1)"
    using select_first_match [OF wf, of 321 1 3] two by blast
  have b: "select (- 321) ev_two_kp = Inr NOT_FOUND"
    using select_first_match [OF wf, of "- 321" 0 0] n by blast
  show ?thesis
    using wf f s n m a b by (simp add: NOT_FOUND_def)
qed

section \<open>The selection predicates\<close>

lemma count_from_end: "length pid \<le> i \<Longrightarrow> count_from T pid pass i = 0"
  by (simp add: count_from_def)

lemma count_from_step:
  "i < length pid \<Longrightarrow>
   count_from T pid pass i =
     (if pid ! i = T \<and> pass ! i then 1 else 0) + count_from T pid pass (Suc i)"
  by (simp add: count_from_def upt_conv_Cons)

lemma flagged_from_end: "length pid \<le> i \<Longrightarrow> \<not> flagged_from pid pass d i"
  by (simp add: flagged_from_def)

lemma flagged_from_step:
  "i < length pid \<Longrightarrow>
   flagged_from pid pass d i \<longleftrightarrow> (pass ! i \<and> d ! i) \<or> flagged_from pid pass d (Suc i)"
  by (simp add: flagged_from_def upt_conv_Cons)

lemma SelectExclusivePhiEvent_loop_count:
  assumes "length pid \<le> length pass"
  shows "SelectExclusivePhiEvent_loop pid pass daughterPass i (e, km, kp, p, h) =
     Inr (e + count_from 11 pid pass i = 1
          \<and> kp + count_from 321 pid pass i \<ge> 1
          \<and> km + count_from (- 321) pid pass i \<ge> 1
          \<and> p + count_from 2212 pid pass i \<ge> 1 \<and> h)"
  using assms
proof (induction pid pass daughterPass i "(e, km, kp, p, h)" arbitrary: e km kp p h
    rule: SelectExclusivePhiEvent_loop.induct)
  case (1 pid pass daughterPass i e km kp p h)
  show ?case
  proof (cases "i < length pid")
    case False
    then show ?thesis
      by (simp add: SelectExclusivePhiEvent_loop.simps [of pid pass daughterPass i]
          count_from_end)
  next
    case lt: True
    then have r: "rvec_at pass i = Inr (pass ! i)"
      using "1.prems" by (simp add: rvec_at_def)
    note st = count_from_step [OF lt, of _ pass]
    note unf = SelectExclusivePhiEvent_loop.simps [of pid pass daughterPass i e km kp p h]
    show ?thesis
    proof (cases "pass ! i")
      case False
      then show ?thesis
        using "1.hyps"(1) [OF lt r _ "1.prems"] lt r
        by (simp add: unf st)
    next
      case ok: True
      consider (el) "pid ! i = 11" | (kp) "pid ! i = 321" | (km) "pid ! i = - 321"
        | (pr) "pid ! i = 2212"
        | (other) "pid ! i \<noteq> 11" "pid ! i \<noteq> 321" "pid ! i \<noteq> - 321" "pid ! i \<noteq> 2212"
        by blast
      then show ?thesis
      proof cases
        case el
        then show ?thesis
          using "1.hyps"(2) [OF lt r _ _ "1.prems"] lt r ok
          by (simp add: unf st add.assoc)
      next
        case kp
        then show ?thesis
          using "1.hyps"(3) [OF lt r _ _ _ "1.prems"] lt r ok
          by (simp add: unf st add.assoc)
      next
        case km
        then show ?thesis
          using "1.hyps"(4) [OF lt r _ _ _ _ "1.prems"] lt r ok
          by (simp add: unf st add.assoc)
      next
        case pr
        then show ?thesis
          using "1.hyps"(5) [OF lt r _ _ _ _ _ "1.prems"] lt r ok
          by (simp add: unf st add.assoc)
      next
        case other
        then show ?thesis
          using "1.hyps"(6) [OF lt r _ _ _ _ _ "1.prems"] lt r ok
          by (simp add: unf st)
      qed
    qed
  qed
qed

lemma SelectExclusivePhiEvent_loop_daughter:
  "SelectExclusivePhiEvent_loop pid pass d i st = SelectExclusivePhiEvent_loop pid pass d' i st"
proof (induction pid pass d i st rule: SelectExclusivePhiEvent_loop.induct)
  case (1 pid pass daughterPass i e km kp p h)
  show ?case
    unfolding SelectExclusivePhiEvent_loop.simps [of pid pass daughterPass i e km kp p h]
      SelectExclusivePhiEvent_loop.simps [of pid pass d' i e km kp p h]
    using 1 by (auto split: sum.splits)
qed

text \<open>
  \<^bold>\<open>C3.\<close> The exclusive-\<open>\<phi>\<close> predicate accepts an event exactly when, among the
  quality-passing particles, there is exactly one electron (11), at least one \<open>K\<^sup>+\<close>
  (321), at least one \<open>K\<^sup>-\<close> (-321) and at least one proton (2212). The daughter-flag
  check does nothing: replacing the daughter-flag array by any other array leaves the
  verdict unchanged.
\<close>

theorem SelectExclusivePhiEvent_counts:
  assumes "wf_event ev"
  shows "SelectExclusivePhiEvent ev =
      Inr (count_passing 11 ev = 1 \<and> count_passing 321 ev \<ge> 1
           \<and> count_passing (- 321) ev \<ge> 1 \<and> count_passing 2212 ev \<ge> 1)
    \<and> SelectExclusivePhiEvent (ev\<lparr>REC_DaughterParticle_pass := d\<rparr>) = SelectExclusivePhiEvent ev"
proof -
  have l: "length (REC_Particle_pid ev) \<le> length (REC_Particle_pass ev)"
    using assms by (simp add: wf_event_def)
  have a: "SelectExclusivePhiEvent ev =
      Inr (count_passing 11 ev = 1 \<and> count_passing 321 ev \<ge> 1
           \<and> count_passing (- 321) ev \<ge> 1 \<and> count_passing 2212 ev \<ge> 1)"
    by (simp add: SelectExclusivePhiEvent_def SelectExclusivePhiEvent_loop_count [OF l]
        count_passing_def)
  have b: "SelectExclusivePhiEvent (ev\<lparr>REC_DaughterParticle_pass := d\<rparr>) = SelectExclusivePhiEvent ev"
    unfolding SelectExclusivePhiEvent_def
    using SelectExclusivePhiEvent_loop_daughter [of "REC_Particle_pid ev" "REC_Particle_pass ev" d]
    by simp
  show ?thesis using a b by simp
qed

theorem SelectExclusivePhiEvent_counts_witness:
  "wf_event ev_full \<and> SelectExclusivePhiEvent ev_full = Inr True
   \<and> count_passing 11 ev_full = 1 \<and> count_passing 321 ev_full = 1
   \<and> SelectExclusivePhiEvent (ev_full\<lparr>REC_DaughterParticle_pass := [True, True, True, True, True]\<rparr>) = Inr True
   \<and> wf_event ev_two_kp \<and> SelectExclusivePhiEvent ev_two_kp = Inr False
   \<and> count_passing 321 ev_two_kp = 2 \<and> count_passing (- 321) ev_two_kp = 0"
proof -
  have wf: "wf_event ev_full" and wf2: "wf_event ev_two_kp"
    by (simp_all add: wf_event_def ev_full_def ev_two_kp_def)
  have c: "count_passing 11 ev_full = 1" "count_passing 321 ev_full = 1"
    "count_passing (- 321) ev_full = 1" "count_passing 2212 ev_full = 1"
    by (simp_all add: count_passing_def count_from_def ev_full_def upt_rec_numeral)
  have c2: "count_passing 11 ev_two_kp = 1" "count_passing 321 ev_two_kp = 2"
    "count_passing (- 321) ev_two_kp = 0" "count_passing 2212 ev_two_kp = 1"
    by (simp_all add: count_passing_def count_from_def ev_two_kp_def upt_rec_numeral)
  show ?thesis
    using wf wf2 c c2 SelectExclusivePhiEvent_counts [OF wf, of "[True, True, True, True, True]"]
      SelectExclusivePhiEvent_counts [OF wf2, of "[]"]
    by simp
qed

lemma RejectPi0TwoPhoton_loop_count:
  assumes "length pid \<le> length pass" and "length pid \<le> length d"
  shows "RejectPi0TwoPhoton_loop pid pass d i (e, g, p) =
     Inr (\<not> flagged_from pid pass d i
          \<and> e + count_from 11 pid pass i = 1
          \<and> g + count_from 22 pid pass i = 1
          \<and> p + count_from 2212 pid pass i = 1)"
  using assms
proof (induction pid pass d i "(e, g, p)" arbitrary: e g p rule: RejectPi0TwoPhoton_loop.induct)
  case (1 pid pass d i e g p)
  show ?case
  proof (cases "i < length pid")
    case False
    then show ?thesis
      by (simp add: RejectPi0TwoPhoton_loop.simps [of pid pass d i] count_from_end
          flagged_from_end)
  next
    case lt: True
    then have r: "rvec_at pass i = Inr (pass ! i)" and rd: "rvec_at d i = Inr (d ! i)"
      using "1.prems" by (simp_all add: rvec_at_def)
    note st = count_from_step [OF lt, of _ pass] flagged_from_step [OF lt, of pass d]
    note unf = RejectPi0TwoPhoton_loop.simps [of pid pass d i e g p]
    show ?thesis
    proof (cases "pass ! i")
      case False
      then show ?thesis
        using "1.hyps"(1) [OF lt r _ "1.prems"] lt r
        by (simp add: unf st)
    next
      case ok: True
      show ?thesis
      proof (cases "d ! i")
        case True
        then show ?thesis using lt r rd ok by (simp add: unf st)
      next
        case nd: False
        consider (el) "pid ! i = 11" | (ph) "pid ! i = 22" | (pr) "pid ! i = 2212"
          | (other) "pid ! i \<noteq> 11" "pid ! i \<noteq> 22" "pid ! i \<noteq> 2212"
          by blast
        then show ?thesis
        proof cases
          case el
          then show ?thesis
            using "1.hyps"(2) [OF lt r _ rd _ _ "1.prems"] lt r rd ok nd
            by (simp add: unf st add.assoc)
        next
          case ph
          then show ?thesis
            using "1.hyps"(3) [OF lt r _ rd _ _ _ "1.prems"] lt r rd ok nd
            by (simp add: unf st add.assoc)
        next
          case pr
          then show ?thesis
            using "1.hyps"(4) [OF lt r _ rd _ _ _ _ "1.prems"] lt r rd ok nd
            by (simp add: unf st add.assoc)
        next
          case other
          then show ?thesis
            using "1.hyps"(5) [OF lt r _ rd _ _ _ _ "1.prems"] lt r rd ok nd
            by (simp add: unf st)
        qed
      qed
    qed
  qed
qed

text \<open>
  \<^bold>\<open>C7.\<close> The \<open>\<pi>\<^sup>0\<close>-rejection predicate returns false for every event in which some
  quality-passing particle carries the daughter flag; otherwise it returns true exactly
  when, among the quality-passing particles, there is exactly one electron (11), exactly
  one photon (22) and exactly one proton (2212).
\<close>

theorem RejectPi0TwoPhoton_verdict:
  assumes "wf_event ev"
  shows "(flagged_daughter ev \<longrightarrow> RejectPi0TwoPhoton ev = Inr False)
    \<and> (\<not> flagged_daughter ev \<longrightarrow>
         RejectPi0TwoPhoton ev =
           Inr (count_passing 11 ev = 1 \<and> count_passing 22 ev = 1 \<and> count_passing 2212 ev = 1))"
proof -
  have l: "length (REC_Particle_pid ev) \<le> length (REC_Particle_pass ev)"
    "length (REC_Particle_pid ev) \<le> length (REC_DaughterParticle_pass ev)"
    using assms by (simp_all add: wf_event_def)
  show ?thesis
    by (simp add: RejectPi0TwoPhoton_def RejectPi0TwoPhoton_loop_count [OF l]
        count_passing_def flagged_daughter_def)
qed

theorem RejectPi0TwoPhoton_verdict_witness:
  "wf_event ev_photon \<and> \<not> flagged_daughter ev_photon \<and> RejectPi0TwoPhoton ev_photon = Inr True
   \<and> wf_event ev_photon_flagged \<and> flagged_daughter ev_photon_flagged
   \<and> RejectPi0TwoPhoton ev_photon_flagged = Inr False
   \<and> wf_event ev_full \<and> \<not> flagged_daughter ev_full \<and> RejectPi0TwoPhoton ev_full = Inr False"
proof -
  have wf: "wf_event ev_photon" "wf_event ev_photon_flagged" "wf_event ev_full"
    by (simp_all add: wf_event_def ev_photon_def ev_photon_flagged_def ev_full_def)
  have f: "\<not> flagged_daughter ev_photon" "flagged_daughter ev_photon_flagged"
    "\<not> flagged_daughter ev_full"
    by (simp_all add: flagged_daughter_def flagged_from_def ev_photon_def ev_photon_flagged_def
        ev_full_def upt_rec_numeral)
  have c: "count_passing 11 ev_photon = 1" "count_passing 22 ev_photon = 1"
    "count_passing 2212 ev_photon = 1" "count_passing 22 ev_full = 0"
    by (simp_all add: count_passing_def count_from_def ev_photon_def ev_full_def upt_rec_numeral)
  show ?thesis
    using wf f c RejectPi0TwoPhoton_verdict [OF wf(1)] RejectPi0TwoPhoton_verdict [OF wf(2)]
      RejectPi0TwoPhoton_verdict [OF wf(3)]
    by simp
qed

section \<open>Detector regions\<close>

lemma det_region_loop_first:
  assumes "length pid \<le> length pass" and "length pid \<le> length status"
    and "i0 \<le> i" and "i < length pid" and "pid ! i = T" and "pass ! i"
    and "\<And>j. i0 \<le> j \<Longrightarrow> j < i \<Longrightarrow> \<not> (pid ! j = T \<and> pass ! j)"
  shows "det_region_loop T pid status pass i0 = Inr (region_of \<bar>sint (status ! i)\<bar>)"
  using assms
proof (induction T pid status pass i0 rule: det_region_loop.induct)
  case (1 T pid status pass i0)
  have lt: "i0 < length pid" using "1.prems" by linarith
  note unf = det_region_loop.simps [of T pid status pass i0]
  show ?case
  proof (cases "i0 = i")
    case True
    then show ?thesis
      using "1.prems"
      by (simp add: det_region_loop.simps [of T pid status pass i] rvec_at_def region_of_def
          Let_def)
  next
    case False
    then have lt': "Suc i0 \<le> i" using "1.prems"(3) by linarith
    have nm: "\<not> (pid ! i0 = T \<and> pass ! i0)"
      using "1.prems"(7) [of i0] False "1.prems"(3) by simp
    have rest: "\<And>j. Suc i0 \<le> j \<Longrightarrow> j < i \<Longrightarrow> \<not> (pid ! j = T \<and> pass ! j)"
      using "1.prems"(7) by simp
    show ?thesis
    proof (cases "pid ! i0 = T")
      case True
      with nm have np: "\<not> pass ! i0" by simp
      have r: "rvec_at pass i0 = Inr False"
        using lt "1.prems"(1) np by (simp add: rvec_at_def)
      have "det_region_loop T pid status pass (Suc i0) = Inr (region_of \<bar>sint (status ! i)\<bar>)"
        using "1.IH"(1) [OF lt True r _ "1.prems"(1,2) lt' "1.prems"(4,5,6) rest] by simp
      then show ?thesis
        using lt True r by (simp add: unf)
    next
      case F2: False
      have "det_region_loop T pid status pass (Suc i0) = Inr (region_of \<bar>sint (status ! i)\<bar>)"
        using "1.IH"(2) [OF lt F2 "1.prems"(1,2) lt' "1.prems"(4,5,6) rest] by simp
      then show ?thesis
        using lt F2 by (simp add: unf)
    qed
  qed
qed

lemma det_region_loop_none:
  assumes "length pid \<le> length pass"
    and "\<And>j. i0 \<le> j \<Longrightarrow> j < length pid \<Longrightarrow> \<not> (pid ! j = T \<and> pass ! j)"
  shows "det_region_loop T pid status pass i0 = Inr (- 1)"
  using assms
proof (induction T pid status pass i0 rule: det_region_loop.induct)
  case (1 T pid status pass i0)
  note unf = det_region_loop.simps [of T pid status pass i0]
  show ?case
  proof (cases "i0 < length pid")
    case False
    then show ?thesis by (simp add: unf)
  next
    case lt: True
    have nm: "\<not> (pid ! i0 = T \<and> pass ! i0)"
      using "1.prems"(2) [of i0] lt by simp
    have rest: "\<And>j. Suc i0 \<le> j \<Longrightarrow> j < length pid \<Longrightarrow> \<not> (pid ! j = T \<and> pass ! j)"
      using "1.prems"(2) by simp
    show ?thesis
    proof (cases "pid ! i0 = T")
      case True
      with nm have np: "\<not> pass ! i0" by simp
      have r: "rvec_at pass i0 = Inr False"
        using lt "1.prems"(1) np by (simp add: rvec_at_def)
      have "det_region_loop T pid status pass (Suc i0) = Inr (- 1)"
        using "1.IH"(1) [OF lt True r _ "1.prems"(1) rest] by simp
      then show ?thesis
        using lt True r by (simp add: unf)
    next
      case F2: False
      have "det_region_loop T pid status pass (Suc i0) = Inr (- 1)"
        using "1.IH"(2) [OF lt F2 "1.prems"(1) rest] by simp
      then show ?thesis
        using lt F2 by (simp add: unf)
    qed
  qed
qed

text \<open>
  \<^bold>\<open>C8.\<close> In all-detected mode the detector-region column of a species is computed from
  the absolute value \<open>a\<close> of the status code of the first quality-passing particle of that
  species: \<open>[1000, 2000)\<close> gives 0 (forward tagger), \<open>[2000, 3000)\<close> gives 1 (forward
  detector), \<open>[4000, 5000)\<close> gives 2 (central detector), every other value, \<open>[3000, 4000)\<close>
  included, gives -1; without a candidate the column is -1. The four columns are the
  instances for the electron, the \<open>K\<^sup>-\<close>, the \<open>K\<^sup>+\<close> and the proton.
\<close>

theorem det_region_classification:
  assumes "wf_event ev"
  shows "(first_candidate T ev i \<longrightarrow>
        (let a = \<bar>sint (REC_Particle_status ev ! i)\<bar> in
           (1000 \<le> a \<and> a < 2000 \<longrightarrow> det_region T ev = Inr 0)
         \<and> (2000 \<le> a \<and> a < 3000 \<longrightarrow> det_region T ev = Inr 1)
         \<and> (4000 \<le> a \<and> a < 5000 \<longrightarrow> det_region T ev = Inr 2)
         \<and> (a < 1000 \<or> (3000 \<le> a \<and> a < 4000) \<or> 5000 \<le> a \<longrightarrow> det_region T ev = Inr (- 1))))
    \<and> (no_candidate T ev \<longrightarrow> det_region T ev = Inr (- 1))
    \<and> ele_det_region ev = det_region 11 ev
    \<and> kMinus_det_region ev = det_region (- 321) ev
    \<and> kPlus_det_region ev = det_region 321 ev
    \<and> pro_det_region ev = det_region 2212 ev"
proof -
  have l: "length (REC_Particle_pid ev) \<le> length (REC_Particle_pass ev)"
    "length (REC_Particle_pid ev) \<le> length (REC_Particle_status ev)"
    using assms by (simp_all add: wf_event_def)
  have f: "det_region T ev = Inr (region_of \<bar>sint (REC_Particle_status ev ! i)\<bar>)"
    if c: "first_candidate T ev i"
    unfolding det_region_def
    using first_candidateD [OF c]
    by (intro det_region_loop_first [OF l]) simp_all
  have n: "det_region T ev = Inr (- 1)" if c: "no_candidate T ev"
    unfolding det_region_def
    by (rule det_region_loop_none [OF l(1)]) (use no_candidateD [OF c] in simp)
  show ?thesis
    using f n
    by (auto simp: Let_def region_of_def ele_det_region_def kMinus_det_region_def
        kPlus_det_region_def pro_det_region_def)
qed

theorem det_region_classification_witness:
  "wf_event ev_full
   \<and> first_candidate 11 ev_full 0 \<and> ele_det_region ev_full = Inr 1
   \<and> first_candidate (- 321) ev_full 3 \<and> kMinus_det_region ev_full = Inr 0
   \<and> first_candidate 2212 ev_full 4 \<and> pro_det_region ev_full = Inr 2
   \<and> first_candidate 321 ev_two_kp 1 \<and> kPlus_det_region ev_two_kp = Inr 1
   \<and> first_candidate 2212 ev_two_kp 2 \<and> pro_det_region ev_two_kp = Inr (- 1)
   \<and> no_candidate (- 321) ev_two_kp \<and> kMinus_det_region ev_two_kp = Inr (- 1)"
proof -
  have wf: "wf_event ev_full" and wf2: "wf_event ev_two_kp"
    by (simp_all add: wf_event_def ev_full_def ev_two_kp_def)
  have f: "first_candidate 11 ev_full 0" "first_candidate (- 321) ev_full 3"
    "first_candidate 2212 ev_full 4"
    by (simp_all add: first_candidate_def is_candidate_def ev_full_def upt_conv_Cons)
  have f2: "first_candidate 321 ev_two_kp 1" "no_candidate (- 321) ev_two_kp"
    "first_candidate 2212 ev_two_kp 2"
    by (simp_all add: first_candidate_def no_candidate_def is_candidate_def ev_two_kp_def
        upt_conv_Cons)
  have s: "\<bar>sint (REC_Particle_status ev_full ! 0)\<bar> = 2100"
    "\<bar>sint (REC_Particle_status ev_full ! 3)\<bar> = 1500"
    "\<bar>sint (REC_Particle_status ev_full ! 4)\<bar> = 4100"
    "\<bar>sint (REC_Particle_status ev_two_kp ! 1)\<bar> = 2200"
    "\<bar>sint (REC_Particle_status ev_two_kp ! 2)\<bar> = 3500"
    by (simp_all add: ev_full_def ev_two_kp_def)
  show ?thesis
    using wf wf2 f f2 s
      det_region_classification [OF wf, of 11 0]
      det_region_classification [OF wf, of "- 321" 3]
      det_region_classification [OF wf, of 2212 4]
      det_region_classification [OF wf2, of 321 1]
      det_region_classification [OF wf2, of 2212 2]
      det_region_classification [OF wf2, of "- 321" 0]
    by (simp add: Let_def)
qed

section \<open>The filter of the all-detected mode\<close>

lemma particle_columns_Inr:
  assumes wf: "wf_event ev"
  shows "\<exists>c. particle_columns T ev = Inr c"
proof -
  have l: "length (REC_Particle_pid ev) \<le> length (REC_Particle_pass ev)"
    "length (REC_Particle_pid ev) \<le> length (REC_Particle_status ev)"
    using wf by (simp_all add: wf_event_def)
  have s: "\<exists>x y z. select_px T ev = Inr x \<and> select_py T ev = Inr y \<and> select_pz T ev = Inr z"
    using select_loop_total [OF wf, of T] candidate_cases [of T ev] by blast
  have d: "\<exists>r. det_region T ev = Inr r"
  proof (rule disjE [OF candidate_cases [of T ev]])
    assume n: "no_candidate T ev"
    have "det_region T ev = Inr (- 1)"
      unfolding det_region_def
      by (rule det_region_loop_none [OF l(1)]) (use no_candidateD [OF n] in simp)
    then show ?thesis by blast
  next
    assume "\<exists>k. first_candidate T ev k"
    then obtain k where c: "first_candidate T ev k" by blast
    have "det_region T ev = Inr (region_of \<bar>sint (REC_Particle_status ev ! k)\<bar>)"
      unfolding det_region_def
      using first_candidateD [OF c]
      by (intro det_region_loop_first [OF l]) simp_all
    then show ?thesis by blast
  qed
  from s d show ?thesis
    by (auto simp: particle_columns_def bind_err_def)
qed

lemma InitKinematics_cases:
  assumes wf: "wf_event ev"
    and s: "select_px 11 ev = Inr ex" "select_px (- 321) ev = Inr kMinusx"
      "select_px 321 ev = Inr kPlusx" "select_px 2212 ev = Inr px"
  shows "(InitKinematics_filter ex kMinusx kPlusx px \<longrightarrow> (\<exists>row. InitKinematics ev = Inr (Some row)))
       \<and> (\<not> InitKinematics_filter ex kMinusx kPlusx px \<longrightarrow> InitKinematics ev = Inr None)"
proof -
  obtain e km kp p where c: "particle_columns 11 ev = Inr e" "particle_columns (- 321) ev = Inr km"
    "particle_columns 321 ev = Inr kp" "particle_columns 2212 ev = Inr p"
    using particle_columns_Inr [OF wf] by meson
  show ?thesis
    by (simp add: InitKinematics_def bind_err_def s c)
qed

lemma ev_full_candidates:
  "wf_event ev_full" "first_candidate 11 ev_full 0" "first_candidate 321 ev_full 1"
  "first_candidate (- 321) ev_full 3" "first_candidate 2212 ev_full 4"
  by (simp_all add: wf_event_def first_candidate_def is_candidate_def ev_full_def upt_conv_Cons)

lemma ev_px_sentinel_candidates:
  "wf_event ev_px_sentinel" "first_candidate 11 ev_px_sentinel 0"
  "first_candidate 321 ev_px_sentinel 1" "first_candidate (- 321) ev_px_sentinel 3"
  "first_candidate 2212 ev_px_sentinel 4"
  by (simp_all add: wf_event_def first_candidate_def is_candidate_def ev_px_sentinel_def
      ev_full_def upt_conv_Cons)

text \<open>
  \<^bold>\<open>C6\<close> (as amended). In all-detected mode an event is rejected, producing no derived
  columns, exactly when at least one of the four selected \<open>px\<close> values (electron, \<open>K\<^sup>-\<close>,
  \<open>K\<^sup>+\<close>, proton) equals the sentinel \<open>-999.0\<close>; every event is either rejected or yields a
  row. Every event in which some species has no quality-passing candidate is rejected,
  and every event in which all four species have a quality-passing candidate whose first
  one has a \<open>px\<close> other than \<open>-999.0\<close> passes the filter.
\<close>

theorem InitKinematics_rejects:
  assumes "wf_event ev"
  shows "(InitKinematics ev = Inr None \<longleftrightarrow>
            select_px 11 ev = Inr (- 999.0) \<or> select_px (- 321) ev = Inr (- 999.0)
          \<or> select_px 321 ev = Inr (- 999.0) \<or> select_px 2212 ev = Inr (- 999.0))
    \<and> (InitKinematics ev = Inr None \<or> (\<exists>row. InitKinematics ev = Inr (Some row)))
    \<and> (no_candidate 11 ev \<or> no_candidate (- 321) ev \<or> no_candidate 321 ev \<or> no_candidate 2212 ev
         \<longrightarrow> InitKinematics ev = Inr None)
    \<and> (first_candidate 11 ev ie \<and> REC_Particle_px ev ! ie \<noteq> - 999.0
         \<and> first_candidate (- 321) ev im \<and> REC_Particle_px ev ! im \<noteq> - 999.0
         \<and> first_candidate 321 ev ip \<and> REC_Particle_px ev ! ip \<noteq> - 999.0
         \<and> first_candidate 2212 ev ipr \<and> REC_Particle_px ev ! ipr \<noteq> - 999.0
         \<longrightarrow> (\<exists>row. InitKinematics ev = Inr (Some row)))"
proof -
  obtain ex kMinusx kPlusx px where s: "select_px 11 ev = Inr ex"
    "select_px (- 321) ev = Inr kMinusx" "select_px 321 ev = Inr kPlusx"
    "select_px 2212 ev = Inr px"
    using select_px_Inr [OF assms] by meson
  note c = InitKinematics_cases [OF assms s]
  have a: "InitKinematics ev = Inr None \<longleftrightarrow>
            select_px 11 ev = Inr (- 999.0) \<or> select_px (- 321) ev = Inr (- 999.0)
          \<or> select_px 321 ev = Inr (- 999.0) \<or> select_px 2212 ev = Inr (- 999.0)"
    using c by (auto simp: s InitKinematics_filter_def)
  have b: "InitKinematics ev = Inr None \<or> (\<exists>row. InitKinematics ev = Inr (Some row))"
    using c by blast
  have n: "select_px T ev = Inr (- 999.0)" if "no_candidate T ev" for T
    using select_loop_total [OF assms, of T] that by simp
  have f: "select_px T ev = Inr (REC_Particle_px ev ! i)" if "first_candidate T ev i" for T i
    using select_loop_total [OF assms, of T i] that by simp
  have d: "InitKinematics ev = Inr None"
    if "no_candidate 11 ev \<or> no_candidate (- 321) ev \<or> no_candidate 321 ev \<or> no_candidate 2212 ev"
    using that n a by blast
  have e: "\<exists>row. InitKinematics ev = Inr (Some row)"
    if h: "first_candidate 11 ev ie \<and> REC_Particle_px ev ! ie \<noteq> - 999.0
         \<and> first_candidate (- 321) ev im \<and> REC_Particle_px ev ! im \<noteq> - 999.0
         \<and> first_candidate 321 ev ip \<and> REC_Particle_px ev ! ip \<noteq> - 999.0
         \<and> first_candidate 2212 ev ipr \<and> REC_Particle_px ev ! ipr \<noteq> - 999.0"
  proof -
    have "InitKinematics ev \<noteq> Inr None"
      unfolding a using h f [of 11 ie] f [of "- 321" im] f [of 321 ip] f [of 2212 ipr] by simp
    with b show ?thesis by blast
  qed
  show ?thesis using a b d e by blast
qed

theorem InitKinematics_rejects_witness:
  "wf_event ev_full \<and> (\<exists>row. InitKinematics ev_full = Inr (Some row))
   \<and> wf_event ev_two_kp \<and> no_candidate (- 321) ev_two_kp \<and> InitKinematics ev_two_kp = Inr None"
proof -
  have wf2: "wf_event ev_two_kp"
    by (simp add: wf_event_def ev_two_kp_def)
  have n: "no_candidate (- 321) ev_two_kp"
    by (simp add: no_candidate_def is_candidate_def ev_two_kp_def upt_conv_Cons)
  have p: "REC_Particle_px ev_full ! 0 \<noteq> - 999.0" "REC_Particle_px ev_full ! 3 \<noteq> - 999.0"
    "REC_Particle_px ev_full ! 1 \<noteq> - 999.0" "REC_Particle_px ev_full ! 4 \<noteq> - 999.0"
    by (simp_all add: ev_full_def)
  show ?thesis
    using ev_full_candidates wf2 n p
      InitKinematics_rejects [OF ev_full_candidates(1), of 0 3 1 4]
      InitKinematics_rejects [OF wf2, of 0 0 0 0]
    by simp
qed

text \<open>
  The filter reads the \<open>px\<close> column only and cannot tell a missing species from a
  candidate whose \<open>px\<close> is \<open>-999.0\<close>: in \<open>ev_px_sentinel\<close> all four species are found, no
  selection returns the sentinel triple, and the event is rejected.
\<close>

theorem InitKinematics_px_sentinel_counterexample:
  "wf_event ev_px_sentinel
   \<and> first_candidate 11 ev_px_sentinel 0 \<and> first_candidate (- 321) ev_px_sentinel 3
   \<and> first_candidate 321 ev_px_sentinel 1 \<and> first_candidate 2212 ev_px_sentinel 4
   \<and> select 11 ev_px_sentinel = Inr (- 999.0, 0.2, 9.0)
   \<and> select 11 ev_px_sentinel \<noteq> Inr NOT_FOUND
   \<and> select (- 321) ev_px_sentinel \<noteq> Inr NOT_FOUND
   \<and> select 321 ev_px_sentinel \<noteq> Inr NOT_FOUND
   \<and> select 2212 ev_px_sentinel \<noteq> Inr NOT_FOUND
   \<and> InitKinematics ev_px_sentinel = Inr None"
proof -
  note c = ev_px_sentinel_candidates
  have m: "momentum_at ev_px_sentinel 0 = (- 999.0, 0.2, 9.0)"
    "momentum_at ev_px_sentinel 3 = (- 0.45, - 0.15, 0.1)"
    "momentum_at ev_px_sentinel 1 = (0.05, 0.05, 0.5)"
    "momentum_at ev_px_sentinel 4 = (0.3, - 0.1, 1.0)"
    by (simp_all add: momentum_at_def ev_px_sentinel_def ev_full_def)
  have s: "select 11 ev_px_sentinel = Inr (- 999.0, 0.2, 9.0)"
    "select (- 321) ev_px_sentinel = Inr (- 0.45, - 0.15, 0.1)"
    "select 321 ev_px_sentinel = Inr (0.05, 0.05, 0.5)"
    "select 2212 ev_px_sentinel = Inr (0.3, - 0.1, 1.0)"
    using select_first [OF c(1) c(2)] select_first [OF c(1) c(4)] select_first [OF c(1) c(3)]
      select_first [OF c(1) c(5)] m by simp_all
  have x: "select_px 11 ev_px_sentinel = Inr (- 999.0)"
    "select_px (- 321) ev_px_sentinel = Inr (- 0.45)"
    "select_px 321 ev_px_sentinel = Inr 0.05"
    "select_px 2212 ev_px_sentinel = Inr 0.3"
    using select_loop_total [OF c(1), of 11 0] select_loop_total [OF c(1), of "- 321" 3]
      select_loop_total [OF c(1), of 321 1] select_loop_total [OF c(1), of 2212 4] c
    by (simp_all add: ev_px_sentinel_def ev_full_def)
  have r: "InitKinematics ev_px_sentinel = Inr None"
    using InitKinematics_cases [OF c(1) x] by (simp add: InitKinematics_filter_def)
  show ?thesis
    using c s r by (simp add: NOT_FOUND_def)
qed

end
